theory Spec2Isabelle
  imports Main "HOL-Library.AList"
begin

section \<open>Python strings and integers\<close>

text \<open>
  The program is \<^verbatim>\<open>src/index.py\<close>, a sparse matrix whose elements live in a
  Python \<^verbatim>\<open>dict\<close> keyed by the text \<^verbatim>\<open>f"{row},{col}"\<close>. The keys are built and
  taken apart again as text, and matrices are read from and written to text, so
  the string operations of Python that the class uses are modelled first.
  A \<^typ>\<open>string\<close> is a list of code points below 256; the integers are Python's
  unbounded \<^verbatim>\<open>int\<close>, modelled by \<^typ>\<open>int\<close> (the interpreter's limit on the
  number of digits of a conversion is not modelled).
\<close>

definition LF :: char where
  "LF = CHR 0x0A"

definition CR :: char where
  "CR = CHR 0x0D"

definition is_space :: "char \<Rightarrow> bool" where
  \<comment> \<open>\<^verbatim>\<open>str.isspace\<close> on the code points below 256\<close>
  "is_space c = ((of_char c :: nat) \<in> {9, 10, 11, 12, 13, 28, 29, 30, 31, 32, 133, 160})"

definition strip :: "string \<Rightarrow> string" where
  \<comment> \<open>\<^verbatim>\<open>s.strip()\<close>\<close>
  "strip s = rev (dropWhile is_space (rev (dropWhile is_space s)))"

definition strip_chars :: "string \<Rightarrow> string \<Rightarrow> string" where
  \<comment> \<open>\<^verbatim>\<open>s.strip(chars)\<close>\<close>
  "strip_chars chars s =
     rev (dropWhile (\<lambda>c. c \<in> set chars) (rev (dropWhile (\<lambda>c. c \<in> set chars) s)))"

fun split_on :: "char \<Rightarrow> string \<Rightarrow> string list" where
  \<comment> \<open>\<^verbatim>\<open>s.split(sep)\<close> for a separator of one character\<close>
  "split_on sep [] = [[]]"
| "split_on sep (c # cs) =
     (if c = sep then [] # split_on sep cs
      else (case split_on sep cs of
              [] \<Rightarrow> [[c]]
            | w # ws \<Rightarrow> (c # w) # ws))"

definition is_digit :: "char \<Rightarrow> bool" where
  "is_digit c = (c \<in> set ''0123456789'')"

definition digit_val :: "char \<Rightarrow> int" where
  "digit_val c = int (of_char c) - 48"

definition digit_char :: "nat \<Rightarrow> char" where
  "digit_char d = ''0123456789'' ! d"

fun int_digits :: "int \<Rightarrow> string \<Rightarrow> int option" where
  \<comment> \<open>the rest of a decimal literal: digits, each optionally preceded by one underscore\<close>
  "int_digits acc [] = Some acc"
| "int_digits acc (c # cs) =
     (if is_digit c then int_digits (10 * acc + digit_val c) cs
      else if c = CHR ''_'' then
        (case cs of
           [] \<Rightarrow> None
         | d # ds \<Rightarrow> if is_digit d then int_digits (10 * acc + digit_val d) ds else None)
      else None)"

fun int_body :: "string \<Rightarrow> int option" where
  "int_body [] = None"
| "int_body (c # cs) = (if is_digit c then int_digits (digit_val c) cs else None)"

fun int_signed :: "string \<Rightarrow> int option" where
  \<comment> \<open>an optional sign, then the digits\<close>
  "int_signed [] = None"
| "int_signed (c # cs) =
     (if c = CHR ''-'' then map_option uminus (int_body cs)
      else if c = CHR ''+'' then int_body cs
      else int_body (c # cs))"

definition py_int :: "string \<Rightarrow> int option" where
  \<comment> \<open>\<^verbatim>\<open>int(s)\<close>; \<open>None\<close> is the \<^verbatim>\<open>ValueError\<close> "invalid literal for int() with base 10"\<close>
  "py_int s = int_signed (strip s)"

fun str_nat :: "nat \<Rightarrow> string" where
  "str_nat n = (if n < 10 then [digit_char n] else str_nat (n div 10) @ [digit_char (n mod 10)])"

declare str_nat.simps [simp del]

definition str_int :: "int \<Rightarrow> string" where
  \<comment> \<open>\<^verbatim>\<open>str(i)\<close>, which is also what \<^verbatim>\<open>f"{i}"\<close> inserts\<close>
  "str_int i = (if i < 0 then CHR ''-'' # str_nat (nat (- i)) else str_nat (nat i))"

fun universal_newlines :: "string \<Rightarrow> string" where
  \<comment> \<open>text mode with the default \<^verbatim>\<open>newline=None\<close>: CR LF and CR are read as LF\<close>
  "universal_newlines [] = []"
| "universal_newlines [a] = (if a = CR then [LF] else [a])"
| "universal_newlines (a # b # cs) =
     (if a = CR \<and> b = LF then LF # universal_newlines cs
      else if a = CR then LF # universal_newlines (b # cs)
      else a # universal_newlines (b # cs))"

fun split_lines :: "string \<Rightarrow> string list" where
  \<comment> \<open>the lines of a text, each with its line end\<close>
  "split_lines [] = []"
| "split_lines (c # cs) =
     (if c = LF then [LF] # split_lines cs
      else (case split_lines cs of
              [] \<Rightarrow> [[c]]
            | l # ls \<Rightarrow> (c # l) # ls))"

definition readlines :: "string \<Rightarrow> string list" where
  \<comment> \<open>\<^verbatim>\<open>file.readlines()\<close> on a file opened with \<^verbatim>\<open>open(path, "r")\<close>\<close>
  "readlines content = split_lines (universal_newlines content)"


section \<open>Errors\<close>

text \<open>
  Every exception the class can raise is a value. The program raises
  \<^verbatim>\<open>ValueError\<close> with five messages of its own; \<^verbatim>\<open>int()\<close> and the unpacking of
  a sequence into a fixed number of names raise \<^verbatim>\<open>ValueError\<close> as well;
  \<^verbatim>\<open>split('=')[1]\<close> raises \<^verbatim>\<open>IndexError\<close>.
\<close>

datatype value_error =
    NotEnoughLines string   \<comment> \<open>"File {path} does not contain enough lines for matrix dimensions."\<close>
  | InvalidFormat string    \<comment> \<open>"Invalid format in line: {line}"\<close>
  | AdditionMismatch        \<comment> \<open>"Matrix dimensions do not match for addition."\<close>
  | SubtractionMismatch     \<comment> \<open>"Matrix dimensions do not match for subtraction."\<close>
  | MultiplicationMismatch  \<comment> \<open>"Invalid dimensions for multiplication."\<close>
  | InvalidLiteral string   \<comment> \<open>\<^verbatim>\<open>int(s)\<close>: "invalid literal for int() with base 10", with \<open>s\<close>\<close>
  | NotEnoughValues nat nat \<comment> \<open>"not enough values to unpack (expected n, got m)"\<close>
  | TooManyValues nat       \<comment> \<open>"too many values to unpack (expected n)"\<close>

datatype error =
    ValueError value_error
  | IndexError                \<comment> \<open>"list index out of range"\<close>
  | FileNotFoundError string  \<comment> \<open>"File not found: {path}"\<close>
  | AttributeError            \<comment> \<open>an object that is not of the class the method expects\<close>
  | RuntimeError              \<comment> \<open>"dictionary changed size during iteration"\<close>

fun ints2 :: "string list \<Rightarrow> value_error + (int \<times> int)" where
  \<comment> \<open>\<^verbatim>\<open>a, b = map(int, parts)\<close>: the conversions run one by one while unpacking\<close>
  "ints2 [] = Inl (NotEnoughValues 2 0)"
| "ints2 [a] =
     (case py_int a of None \<Rightarrow> Inl (InvalidLiteral a) | Some x \<Rightarrow> Inl (NotEnoughValues 2 1))"
| "ints2 [a, b] =
     (case py_int a of None \<Rightarrow> Inl (InvalidLiteral a) | Some x \<Rightarrow>
      (case py_int b of None \<Rightarrow> Inl (InvalidLiteral b) | Some y \<Rightarrow> Inr (x, y)))"
| "ints2 (a # b # c # ps) =
     (case py_int a of None \<Rightarrow> Inl (InvalidLiteral a) | Some x \<Rightarrow>
      (case py_int b of None \<Rightarrow> Inl (InvalidLiteral b) | Some y \<Rightarrow>
      (case py_int c of None \<Rightarrow> Inl (InvalidLiteral c) | Some z \<Rightarrow> Inl (TooManyValues 2))))"

fun ints3 :: "string list \<Rightarrow> value_error + (int \<times> int \<times> int)" where
  \<comment> \<open>\<^verbatim>\<open>a, b, c = map(int, parts)\<close>\<close>
  "ints3 [] = Inl (NotEnoughValues 3 0)"
| "ints3 [a] =
     (case py_int a of None \<Rightarrow> Inl (InvalidLiteral a) | Some x \<Rightarrow> Inl (NotEnoughValues 3 1))"
| "ints3 [a, b] =
     (case py_int a of None \<Rightarrow> Inl (InvalidLiteral a) | Some x \<Rightarrow>
      (case py_int b of None \<Rightarrow> Inl (InvalidLiteral b) | Some y \<Rightarrow> Inl (NotEnoughValues 3 2)))"
| "ints3 [a, b, c] =
     (case py_int a of None \<Rightarrow> Inl (InvalidLiteral a) | Some x \<Rightarrow>
      (case py_int b of None \<Rightarrow> Inl (InvalidLiteral b) | Some y \<Rightarrow>
      (case py_int c of None \<Rightarrow> Inl (InvalidLiteral c) | Some z \<Rightarrow> Inr (x, y, z))))"
| "ints3 (a # b # c # d # ps) =
     (case py_int a of None \<Rightarrow> Inl (InvalidLiteral a) | Some x \<Rightarrow>
      (case py_int b of None \<Rightarrow> Inl (InvalidLiteral b) | Some y \<Rightarrow>
      (case py_int c of None \<Rightarrow> Inl (InvalidLiteral c) | Some z \<Rightarrow>
      (case py_int d of None \<Rightarrow> Inl (InvalidLiteral d) | Some w \<Rightarrow> Inl (TooManyValues 3)))))"


section \<open>The class \<^verbatim>\<open>SparseMatrix\<close>\<close>

text \<open>
  The \<^verbatim>\<open>dict\<close> of elements is an association list in insertion order: Python's
  \<^verbatim>\<open>d[k] = v\<close> overwrites the value of a key that is present where it stands and
  appends a new key at the end, which is \<^const>\<open>AList.update\<close>; \<^verbatim>\<open>d.get(k, 0)\<close>
  is a lookup with \<^const>\<open>map_of\<close> and the default \<open>0\<close>; \<^verbatim>\<open>d.items()\<close> is the list
  itself.
\<close>

record matrix =
  elements :: "(string \<times> int) list"
  rows :: int
  cols :: int

definition SparseMatrix :: "int \<Rightarrow> int \<Rightarrow> matrix" where
  \<comment> \<open>\<^verbatim>\<open>__init__\<close>\<close>
  "SparseMatrix num_rows num_cols = \<lparr>elements = [], rows = num_rows, cols = num_cols\<rparr>"

definition key :: "int \<Rightarrow> int \<Rightarrow> string" where
  \<comment> \<open>\<^verbatim>\<open>f"{row},{col}"\<close>\<close>
  "key row col = str_int row @ '','' @ str_int col"

definition dict_get :: "(string \<times> int) list \<Rightarrow> string \<Rightarrow> int" where
  \<comment> \<open>\<^verbatim>\<open>d.get(k, 0)\<close>\<close>
  "dict_get d k = (case map_of d k of None \<Rightarrow> 0 | Some v \<Rightarrow> v)"

definition get_element :: "matrix \<Rightarrow> int \<Rightarrow> int \<Rightarrow> int" where
  "get_element self row col = dict_get (elements self) (key row col)"

definition set_element :: "matrix \<Rightarrow> int \<Rightarrow> int \<Rightarrow> int \<Rightarrow> matrix" where
  "set_element self row col v =
     self\<lparr>rows := (if row \<ge> rows self then row + 1 else rows self),
          cols := (if col \<ge> cols self then col + 1 else cols self),
          elements := AList.update (key row col) v (elements self)\<rparr>"

fun copy_elements :: "(string \<times> int) list \<Rightarrow> matrix \<Rightarrow> error + matrix" where
  \<comment> \<open>the first loop of \<^verbatim>\<open>add\<close> and of \<^verbatim>\<open>subtract\<close>\<close>
  "copy_elements [] result_matrix = Inr result_matrix"
| "copy_elements ((k, v) # items) result_matrix =
     (case ints2 (split_on (CHR '','') k) of
        Inl e \<Rightarrow> Inl (ValueError e)
      | Inr (row, col) \<Rightarrow> copy_elements items (set_element result_matrix row col v))"

fun merge_elements ::
  "(int \<Rightarrow> int \<Rightarrow> int) \<Rightarrow> (string \<times> int) list \<Rightarrow> matrix \<Rightarrow> error + matrix" where
  \<comment> \<open>the second loop of \<^verbatim>\<open>add\<close> (with \<open>+\<close>) and of \<^verbatim>\<open>subtract\<close> (with \<open>-\<close>)\<close>
  "merge_elements f [] result_matrix = Inr result_matrix"
| "merge_elements f ((k, v) # items) result_matrix =
     (case ints2 (split_on (CHR '','') k) of
        Inl e \<Rightarrow> Inl (ValueError e)
      | Inr (row, col) \<Rightarrow>
          merge_elements f items
            (set_element result_matrix row col (f (get_element result_matrix row col) v)))"

definition add :: "matrix \<Rightarrow> matrix \<Rightarrow> error + matrix" where
  "add self other =
     (if rows self \<noteq> rows other \<or> cols self \<noteq> cols other
      then Inl (ValueError AdditionMismatch)
      else (case copy_elements (elements self)
                   (SparseMatrix (max (rows self) (rows other)) (max (cols self) (cols other))) of
              Inl e \<Rightarrow> Inl e
            | Inr result_matrix \<Rightarrow> merge_elements (+) (elements other) result_matrix))"

definition subtract :: "matrix \<Rightarrow> matrix \<Rightarrow> error + matrix" where
  "subtract self other =
     (if rows self \<noteq> rows other \<or> cols self \<noteq> cols other
      then Inl (ValueError SubtractionMismatch)
      else (case copy_elements (elements self)
                   (SparseMatrix (max (rows self) (rows other)) (max (cols self) (cols other))) of
              Inl e \<Rightarrow> Inl e
            | Inr result_matrix \<Rightarrow> merge_elements (-) (elements other) result_matrix))"

fun multiply_inner ::
  "int \<Rightarrow> int \<Rightarrow> int \<Rightarrow> (string \<times> int) list \<Rightarrow> matrix \<Rightarrow> error + matrix" where
  \<comment> \<open>the inner loop of \<^verbatim>\<open>multiply\<close>, for one element of \<^verbatim>\<open>self\<close>\<close>
  "multiply_inner row1 col1 value1 [] result_matrix = Inr result_matrix"
| "multiply_inner row1 col1 value1 ((key2, value2) # items) result_matrix =
     (case ints2 (split_on (CHR '','') key2) of
        Inl e \<Rightarrow> Inl (ValueError e)
      | Inr (row2, col2) \<Rightarrow>
          multiply_inner row1 col1 value1 items
            (if col1 = row2
             then set_element result_matrix row1 col2
                    (get_element result_matrix row1 col2 + value1 * value2)
             else result_matrix))"

fun multiply_outer ::
  "(string \<times> int) list \<Rightarrow> (string \<times> int) list \<Rightarrow> matrix \<Rightarrow> error + matrix" where
  \<comment> \<open>the outer loop of \<^verbatim>\<open>multiply\<close>\<close>
  "multiply_outer [] items2 result_matrix = Inr result_matrix"
| "multiply_outer ((key1, value1) # items1) items2 result_matrix =
     (case ints2 (split_on (CHR '','') key1) of
        Inl e \<Rightarrow> Inl (ValueError e)
      | Inr (row1, col1) \<Rightarrow>
          (case multiply_inner row1 col1 value1 items2 result_matrix of
             Inl e \<Rightarrow> Inl e
           | Inr result_matrix' \<Rightarrow> multiply_outer items1 items2 result_matrix'))"

definition multiply :: "matrix \<Rightarrow> matrix \<Rightarrow> error + matrix" where
  "multiply self other =
     (if cols self \<noteq> rows other
      then Inl (ValueError MultiplicationMismatch)
      else multiply_outer (elements self) (elements other)
             (SparseMatrix (rows self) (cols other)))"

fun to_string_loop :: "(string \<times> int) list \<Rightarrow> string \<Rightarrow> error + string" where
  \<comment> \<open>the loop of \<^verbatim>\<open>to_string\<close>; \<^verbatim>\<open>row, col = key.split(",")\<close> needs exactly two parts\<close>
  "to_string_loop [] result = Inr result"
| "to_string_loop ((k, v) # items) result =
     (case split_on (CHR '','') k of
        [row, col] \<Rightarrow>
          to_string_loop items
            (result @ ''('' @ row @ '', '' @ col @ '', '' @ str_int v @ '')'' @ [LF])
      | [] \<Rightarrow> Inl (ValueError (NotEnoughValues 2 0))
      | [a] \<Rightarrow> Inl (ValueError (NotEnoughValues 2 1))
      | a # b # c # ps \<Rightarrow> Inl (ValueError (TooManyValues 2)))"

definition to_string :: "matrix \<Rightarrow> error + string" where
  "to_string self =
     (case to_string_loop (elements self)
             (''rows='' @ str_int (rows self) @ [LF] @ ''cols='' @ str_int (cols self) @ [LF]) of
        Inl e \<Rightarrow> Inl e
      | Inr result \<Rightarrow> Inr (strip result))"

definition header_int :: "string \<Rightarrow> error + int" where
  \<comment> \<open>\<^verbatim>\<open>int(line.strip().split('=')[1])\<close>\<close>
  "header_int line =
     (case split_on (CHR ''='') (strip line) of
        a # b # ps \<Rightarrow>
          (case py_int b of None \<Rightarrow> Inl (ValueError (InvalidLiteral b)) | Some n \<Rightarrow> Inr n)
      | _ \<Rightarrow> Inl IndexError)"

fun from_file_loop :: "string list \<Rightarrow> matrix \<Rightarrow> error + matrix" where
  \<comment> \<open>the loop of \<^verbatim>\<open>from_file\<close> over \<^verbatim>\<open>lines[2:]\<close>\<close>
  "from_file_loop [] sparse_matrix = Inr sparse_matrix"
| "from_file_loop (l # ls) sparse_matrix =
     (let line = strip l in
      if line = [] then from_file_loop ls sparse_matrix
      else (case ints3 (split_on (CHR '','') (strip_chars ''()'' line)) of
              Inl e \<Rightarrow> Inl (ValueError (InvalidFormat line))
            | Inr (row, col, v) \<Rightarrow> from_file_loop ls (set_element sparse_matrix row col v)))"

definition from_lines :: "string \<Rightarrow> string list \<Rightarrow> error + matrix" where
  \<comment> \<open>the body of \<^verbatim>\<open>from_file\<close> once the lines are read\<close>
  "from_lines matrix_file_path lines =
     (if length lines < 2 then Inl (ValueError (NotEnoughLines matrix_file_path))
      else (case header_int (lines ! 0) of
              Inl e \<Rightarrow> Inl e
            | Inr total_rows \<Rightarrow>
                (case header_int (lines ! 1) of
                   Inl e \<Rightarrow> Inl e
                 | Inr total_cols \<Rightarrow>
                     from_file_loop (drop 2 lines) (SparseMatrix total_rows total_cols))))"

text \<open>
  The files are a map from paths to contents. A path with no file is the
  \<^verbatim>\<open>FileNotFoundError\<close> of \<^verbatim>\<open>open\<close>; other failures of the operating system are
  not modelled.
\<close>

type_synonym files = "string \<rightharpoonup> string"

definition from_file :: "files \<Rightarrow> string \<Rightarrow> error + matrix" where
  "from_file fs matrix_file_path =
     (case fs matrix_file_path of
        None \<Rightarrow> Inl (FileNotFoundError matrix_file_path)
      | Some content \<Rightarrow> from_lines matrix_file_path (readlines content))"

definition save_to_file :: "files \<Rightarrow> matrix \<Rightarrow> string \<Rightarrow> error + files" where
  "save_to_file fs self file_path =
     (case to_string self of
        Inl e \<Rightarrow> Inl e
      | Inr content \<Rightarrow> Inr (fs(file_path \<mapsto> content)))"



section \<open>Objects and references\<close>

text \<open>
  In Python a matrix is an object that holds a reference to its \<^verbatim>\<open>dict\<close>, the
  operands of \<^verbatim>\<open>add\<close>, \<^verbatim>\<open>subtract\<close> and \<^verbatim>\<open>multiply\<close> are references, and
  \<^verbatim>\<open>set_element\<close> writes into the object it is called on. To say which objects a
  method writes, the methods are modelled a second time over a store of objects.
  A reference is an index into the store, \<^verbatim>\<open>SparseMatrix(...)\<close> allocates at its
  end, and a \<^verbatim>\<open>for\<close> loop over \<^verbatim>\<open>d.items()\<close> reads the dictionary from the store at
  every step, failing as Python does when its size has changed. The lemmas
  \<open>add_ref_refines\<close>, \<open>subtract_ref_refines\<close> and \<open>multiply_ref_refines\<close> relate the
  two models: on references that denote matrices, a method over the store returns
  a reference that denotes what the method over values returns.
\<close>

type_synonym ref = nat

datatype obj =
    Dict "(string \<times> int) list"
  | Matrix ref int int   \<comment> \<open>\<^verbatim>\<open>elements\<close>, \<^verbatim>\<open>rows\<close>, \<^verbatim>\<open>cols\<close>\<close>

type_synonym heap = "obj list"

definition matrix_at :: "heap \<Rightarrow> ref \<Rightarrow> error + (ref \<times> int \<times> int)" where
  "matrix_at h a =
     (if a < length h
      then (case h ! a of Matrix d rs cs \<Rightarrow> Inr (d, rs, cs) | Dict items \<Rightarrow> Inl AttributeError)
      else Inl AttributeError)"

definition dict_at :: "heap \<Rightarrow> ref \<Rightarrow> error + (string \<times> int) list" where
  "dict_at h d =
     (if d < length h
      then (case h ! d of Dict items \<Rightarrow> Inr items | Matrix d' rs cs \<Rightarrow> Inl AttributeError)
      else Inl AttributeError)"

definition new_ref :: "heap \<Rightarrow> int \<Rightarrow> int \<Rightarrow> ref \<times> heap" where
  \<comment> \<open>\<^verbatim>\<open>SparseMatrix(num_rows, num_cols)\<close>: a new \<^verbatim>\<open>dict\<close>, then the new matrix\<close>
  "new_ref h num_rows num_cols =
     (Suc (length h), h @ [Dict [], Matrix (length h) num_rows num_cols])"

definition get_element_ref :: "heap \<Rightarrow> ref \<Rightarrow> int \<Rightarrow> int \<Rightarrow> error + (int \<times> heap)" where
  \<comment> \<open>the value read, and the store after the call\<close>
  "get_element_ref h self row col =
     (case matrix_at h self of
        Inl e \<Rightarrow> Inl e
      | Inr (d, rs, cs) \<Rightarrow>
          (case dict_at h d of
             Inl e \<Rightarrow> Inl e
           | Inr items \<Rightarrow> Inr (dict_get items (key row col), h)))"

definition set_element_ref :: "heap \<Rightarrow> ref \<Rightarrow> int \<Rightarrow> int \<Rightarrow> int \<Rightarrow> error + heap" where
  "set_element_ref h self row col v =
     (case matrix_at h self of
        Inl e \<Rightarrow> Inl e
      | Inr (d, rs, cs) \<Rightarrow>
          (let h1 = h[self := Matrix d (if row \<ge> rs then row + 1 else rs)
                                       (if col \<ge> cs then col + 1 else cs)]
           in case dict_at h1 d of
                Inl e \<Rightarrow> Inl e
              | Inr items \<Rightarrow> Inr (h1[d := Dict (AList.update (key row col) v items)])))"

function iterate_items ::
  "(heap \<Rightarrow> string \<Rightarrow> int \<Rightarrow> error + heap) \<Rightarrow> heap \<Rightarrow> ref \<Rightarrow> nat \<Rightarrow> nat \<Rightarrow> error + heap" where
  \<comment> \<open>the iterator of \<^verbatim>\<open>d.items()\<close> at position \<open>i\<close>, made when the dictionary had \<open>n\<close> items\<close>
  "iterate_items body h d n i =
     (case dict_at h d of
        Inl e \<Rightarrow> Inl e
      | Inr items \<Rightarrow>
          if length items \<noteq> n then Inl RuntimeError
          else if i < n then
            (case body h (fst (items ! i)) (snd (items ! i)) of
               Inl e \<Rightarrow> Inl e
             | Inr h' \<Rightarrow> iterate_items body h' d n (Suc i))
          else Inr h)"
  by pat_completeness auto
termination
  by (relation "measure (\<lambda>(body, h, d, n, i). n - i)") auto

declare iterate_items.simps [simp del]

definition for_items ::
  "(heap \<Rightarrow> string \<Rightarrow> int \<Rightarrow> error + heap) \<Rightarrow> heap \<Rightarrow> ref \<Rightarrow> error + heap" where
  \<comment> \<open>\<^verbatim>\<open>for key, value in m.elements.items(): body\<close>\<close>
  "for_items body h self =
     (case matrix_at h self of
        Inl e \<Rightarrow> Inl e
      | Inr (d, rs, cs) \<Rightarrow>
          (case dict_at h d of
             Inl e \<Rightarrow> Inl e
           | Inr items \<Rightarrow> iterate_items body h d (length items) 0))"

definition copy_body :: "ref \<Rightarrow> heap \<Rightarrow> string \<Rightarrow> int \<Rightarrow> error + heap" where
  \<comment> \<open>the body of the first loop of \<^verbatim>\<open>add\<close> and \<^verbatim>\<open>subtract\<close>\<close>
  "copy_body result_matrix h k v =
     (case ints2 (split_on (CHR '','') k) of
        Inl e \<Rightarrow> Inl (ValueError e)
      | Inr (row, col) \<Rightarrow> set_element_ref h result_matrix row col v)"

definition merge_body ::
  "(int \<Rightarrow> int \<Rightarrow> int) \<Rightarrow> ref \<Rightarrow> heap \<Rightarrow> string \<Rightarrow> int \<Rightarrow> error + heap" where
  \<comment> \<open>the body of the second loop of \<^verbatim>\<open>add\<close> (with \<open>+\<close>) and \<^verbatim>\<open>subtract\<close> (with \<open>-\<close>)\<close>
  "merge_body f result_matrix h k v =
     (case ints2 (split_on (CHR '','') k) of
        Inl e \<Rightarrow> Inl (ValueError e)
      | Inr (row, col) \<Rightarrow>
          (case get_element_ref h result_matrix row col of
             Inl e \<Rightarrow> Inl e
           | Inr (current_value, h1) \<Rightarrow>
               set_element_ref h1 result_matrix row col (f current_value v)))"

definition combine_ref ::
  "value_error \<Rightarrow> (int \<Rightarrow> int \<Rightarrow> int) \<Rightarrow> heap \<Rightarrow> ref \<Rightarrow> ref \<Rightarrow> error + (ref \<times> heap)" where
  \<comment> \<open>\<^verbatim>\<open>add\<close> and \<^verbatim>\<open>subtract\<close>, which differ in the message and in the operator\<close>
  "combine_ref mismatch f h self other =
     (case matrix_at h self of
        Inl e \<Rightarrow> Inl e
      | Inr (d1, rows1, cols1) \<Rightarrow>
          (case matrix_at h other of
             Inl e \<Rightarrow> Inl e
           | Inr (d2, rows2, cols2) \<Rightarrow>
               if rows1 \<noteq> rows2 \<or> cols1 \<noteq> cols2 then Inl (ValueError mismatch)
               else
                 (let (result_matrix, h1) = new_ref h (max rows1 rows2) (max cols1 cols2)
                  in case for_items (copy_body result_matrix) h1 self of
                       Inl e \<Rightarrow> Inl e
                     | Inr h2 \<Rightarrow>
                         (case for_items (merge_body f result_matrix) h2 other of
                            Inl e \<Rightarrow> Inl e
                          | Inr h3 \<Rightarrow> Inr (result_matrix, h3)))))"

definition add_ref :: "heap \<Rightarrow> ref \<Rightarrow> ref \<Rightarrow> error + (ref \<times> heap)" where
  "add_ref = combine_ref AdditionMismatch (+)"

definition subtract_ref :: "heap \<Rightarrow> ref \<Rightarrow> ref \<Rightarrow> error + (ref \<times> heap)" where
  "subtract_ref = combine_ref SubtractionMismatch (-)"

definition multiply_inner_body ::
  "int \<Rightarrow> int \<Rightarrow> int \<Rightarrow> ref \<Rightarrow> heap \<Rightarrow> string \<Rightarrow> int \<Rightarrow> error + heap" where
  \<comment> \<open>the body of the inner loop of \<^verbatim>\<open>multiply\<close>\<close>
  "multiply_inner_body row1 col1 value1 result_matrix h key2 value2 =
     (case ints2 (split_on (CHR '','') key2) of
        Inl e \<Rightarrow> Inl (ValueError e)
      | Inr (row2, col2) \<Rightarrow>
          if col1 = row2 then
            (case get_element_ref h result_matrix row1 col2 of
               Inl e \<Rightarrow> Inl e
             | Inr (current_value, h1) \<Rightarrow>
                 set_element_ref h1 result_matrix row1 col2 (current_value + value1 * value2))
          else Inr h)"

definition multiply_outer_body :: "ref \<Rightarrow> ref \<Rightarrow> heap \<Rightarrow> string \<Rightarrow> int \<Rightarrow> error + heap" where
  \<comment> \<open>the body of the outer loop of \<^verbatim>\<open>multiply\<close>\<close>
  "multiply_outer_body other result_matrix h key1 value1 =
     (case ints2 (split_on (CHR '','') key1) of
        Inl e \<Rightarrow> Inl (ValueError e)
      | Inr (row1, col1) \<Rightarrow>
          for_items (multiply_inner_body row1 col1 value1 result_matrix) h other)"

definition multiply_ref :: "heap \<Rightarrow> ref \<Rightarrow> ref \<Rightarrow> error + (ref \<times> heap)" where
  "multiply_ref h self other =
     (case matrix_at h self of
        Inl e \<Rightarrow> Inl e
      | Inr (d1, rows1, cols1) \<Rightarrow>
          (case matrix_at h other of
             Inl e \<Rightarrow> Inl e
           | Inr (d2, rows2, cols2) \<Rightarrow>
               if cols1 \<noteq> rows2 then Inl (ValueError MultiplicationMismatch)
               else
                 (let (result_matrix, h1) = new_ref h rows1 cols2
                  in case for_items (multiply_outer_body other result_matrix) h1 self of
                       Inl e \<Rightarrow> Inl e
                     | Inr h2 \<Rightarrow> Inr (result_matrix, h2))))"

text \<open>
  The matrix that a reference denotes: the fields of the object together with
  the items of the dictionary it refers to.
\<close>

definition view :: "heap \<Rightarrow> ref \<Rightarrow> matrix option" where
  "view h a =
     (case matrix_at h a of
        Inl e \<Rightarrow> None
      | Inr (d, rs, cs) \<Rightarrow>
          (case dict_at h d of
             Inl e \<Rightarrow> None
           | Inr items \<Rightarrow> Some \<lparr>elements = items, rows = rs, cols = cs\<rparr>))"

definition with_result :: "heap \<Rightarrow> matrix \<Rightarrow> heap" where
  \<comment> \<open>the store \<open>h\<close> followed by a new dictionary and a new matrix that denote \<open>m\<close>\<close>
  "with_result h m = h @ [Dict (elements m), Matrix (length h) (rows m) (cols m)]"


section \<open>Well-formed matrices\<close>

text \<open>
  Every matrix the program builds comes from \<^const>\<open>SparseMatrix\<close> followed by calls
  of \<^const>\<open>set_element\<close> with integer arguments. Its keys are then distinct (it is
  a \<^verbatim>\<open>dict\<close>), each key is the text of a pair of integers, and \<^const>\<open>set_element\<close>
  has raised the dimensions above every stored coordinate. The predicate is
  executable. It is an invariant of the class: it holds of a new matrix
  (\<open>well_formed_SparseMatrix\<close>), \<^const>\<open>set_element\<close> keeps it
  (\<open>well_formed_set_element\<close>), and it holds of what \<^const>\<open>add\<close>, \<^const>\<open>subtract\<close>,
  \<^const>\<open>multiply\<close> and \<^const>\<open>from_file\<close> return (\<open>add_result\<close>, \<open>subtract_result\<close>,
  \<open>multiply_result\<close>, \<open>from_file_well_formed\<close>).
\<close>

definition key_ok :: "matrix \<Rightarrow> string \<Rightarrow> bool" where
  "key_ok m k =
     (case ints2 (split_on (CHR '','') k) of
        Inl e \<Rightarrow> False
      | Inr (row, col) \<Rightarrow> k = key row col \<and> row < rows m \<and> col < cols m)"

definition well_formed :: "matrix \<Rightarrow> bool" where
  "well_formed m =
     (distinct (map fst (elements m)) \<and> list_all (key_ok m) (map fst (elements m)))"

fun set_elements :: "matrix \<Rightarrow> (int \<times> int \<times> int) list \<Rightarrow> matrix" where
  \<comment> \<open>a caller's sequence of calls \<^verbatim>\<open>m.set_element(row, col, value)\<close>\<close>
  "set_elements m [] = m"
| "set_elements m ((row, col, v) # calls) = set_elements (set_element m row col v) calls"


text \<open>
  The words in which the text of a matrix is described: the dictionary item that
  a call of \<^const>\<open>set_element\<close> stores, the line that \<^const>\<open>to_string\<close> writes for an
  element (without its line end), and lines joined by line feeds.
\<close>

definition item :: "int \<times> int \<times> int \<Rightarrow> string \<times> int" where
  "item = (\<lambda>(row, col, v). (key row col, v))"

definition element_line :: "int \<times> int \<times> int \<Rightarrow> string" where
  "element_line = (\<lambda>(row, col, v).
     ''('' @ str_int row @ '', '' @ str_int col @ '', '' @ str_int v @ '')'')"

fun join_lines :: "string list \<Rightarrow> string" where
  "join_lines [] = []"
| "join_lines [l] = l"
| "join_lines (l # l' # ls) = l @ [LF] @ join_lines (l' # ls)"

definition header_value :: "string \<Rightarrow> string" where
  \<comment> \<open>what a header line holds between its first \<open>=\<close> and the next one, or its end\<close>
  "header_value line =
     takeWhile (\<lambda>c. c \<noteq> CHR ''='') (tl (dropWhile (\<lambda>c. c \<noteq> CHR ''='') (strip line)))"

text \<open>
  Small matrices built by the program's own operations, and a store that holds
  two of them, used as concrete inputs.
\<close>

definition example_A :: matrix where
  "example_A = set_element (set_element (SparseMatrix 2 2) 0 0 1) 1 0 (- 4)"

definition example_B :: matrix where
  "example_B = set_element (set_element (SparseMatrix 2 2) 1 1 2) 1 0 4"

definition example_C :: matrix where
  "example_C = set_element (set_element (SparseMatrix 2 3) 0 1 3) 0 2 5"

definition example_heap :: heap where
  \<comment> \<open>\<^const>\<open>example_A\<close> at reference 1 and \<^const>\<open>example_C\<close> at reference 3\<close>
  "example_heap = with_result (with_result [] example_A) example_C"


section \<open>Properties of the string operations\<close>

lemma digit_char_props:
  assumes "d < 10"
  shows "is_digit (digit_char d)" and "digit_val (digit_char d) = int d"
proof -
  from assms have "d \<in> {0, 1, 2, 3, 4, 5, 6, 7, 8, 9}" by auto
  then show "is_digit (digit_char d)" and "digit_val (digit_char d) = int d"
    by (auto simp: is_digit_def digit_char_def digit_val_def)
qed

lemma is_digit_cases:
  "is_digit c \<Longrightarrow>
     \<not> is_space c \<and> c \<noteq> CHR '','' \<and> c \<noteq> CHR ''-'' \<and> c \<noteq> CHR ''+'' \<and> c \<noteq> CHR ''_'' \<and>
     c \<noteq> LF \<and> c \<noteq> CR \<and> c \<noteq> CHR ''('' \<and> c \<noteq> CHR '')'' \<and> c \<noteq> CHR '' '' \<and> c \<noteq> CHR ''=''"
  by (auto simp: is_digit_def is_space_def LF_def CR_def)

lemma str_nat_digits: "c \<in> set (str_nat n) \<Longrightarrow> is_digit c"
proof (induction n arbitrary: c rule: str_nat.induct)
  case (1 n)
  show ?case
  proof (cases "n < 10")
    case True
    with "1.prems" show ?thesis by (simp add: str_nat.simps [of n] digit_char_props)
  next
    case False
    with "1.prems" "1.IH" show ?thesis
      by (auto simp: str_nat.simps [of n] digit_char_props)
  qed
qed

lemma str_nat_not_Nil: "str_nat n \<noteq> []"
  by (subst str_nat.simps) simp

lemma int_digits_all_digits:
  "(\<And>c. c \<in> set ds \<Longrightarrow> is_digit c) \<Longrightarrow>
     int_digits acc ds = Some (foldl (\<lambda>a c. 10 * a + digit_val c) acc ds)"
  by (induction ds arbitrary: acc) simp_all

lemma str_nat_value: "foldl (\<lambda>a c. 10 * a + digit_val c) 0 (str_nat n) = int n"
proof (induction n rule: str_nat.induct)
  case (1 n)
  show ?case
  proof (cases "n < 10")
    case True
    then show ?thesis by (simp add: str_nat.simps [of n] digit_char_props)
  next
    case False
    then have "foldl (\<lambda>a c. 10 * a + digit_val c) 0 (str_nat n)
        = 10 * int (n div 10) + int (n mod 10)"
      using "1.IH" by (simp add: str_nat.simps [of n] digit_char_props)
    also have "\<dots> = int n" by presburger
    finally show ?thesis .
  qed
qed

lemma int_body_str_nat: "int_body (str_nat n) = Some (int n)"
proof -
  obtain c cs where eq: "str_nat n = c # cs"
    using str_nat_not_Nil [of n] by (cases "str_nat n") auto
  have dig: "\<And>x. x \<in> set (c # cs) \<Longrightarrow> is_digit x"
    using str_nat_digits [of _ n] eq by simp
  have "int_body (c # cs) = int_digits (digit_val c) cs"
    using dig by simp
  also have "\<dots> = Some (foldl (\<lambda>a c. 10 * a + digit_val c) (digit_val c) cs)"
    using dig by (intro int_digits_all_digits) simp
  also have "foldl (\<lambda>a c. 10 * a + digit_val c) (digit_val c) cs
      = foldl (\<lambda>a c. 10 * a + digit_val c) 0 (c # cs)" by simp
  also have "\<dots> = int n" using str_nat_value [of n] eq by simp
  finally show ?thesis using eq by simp
qed

lemma strip_spaces:
  assumes "s \<noteq> []" "\<not> is_space (hd s)" "\<not> is_space (last s)"
    and "\<And>c. c \<in> set pre \<Longrightarrow> is_space c" and "\<And>c. c \<in> set post \<Longrightarrow> is_space c"
  shows "strip (pre @ s @ post) = s"
proof -
  from assms have 1: "dropWhile is_space (pre @ s @ post) = s @ post"
    by (cases s) (auto simp: dropWhile_append3 dropWhile_append)
  have 2: "dropWhile is_space (rev post @ rev s) = rev s"
    using assms by (cases "rev s") (auto simp: dropWhile_append hd_rev)
  show ?thesis by (simp add: strip_def 1 2)
qed

lemma strip_id:
  assumes "s \<noteq> []" "\<not> is_space (hd s)" "\<not> is_space (last s)"
  shows "strip s = s"
  using strip_spaces [OF assms, of "[]" "[]"] by simp

lemma str_int_chars: "c \<in> set (str_int i) \<Longrightarrow> is_digit c \<or> c = CHR ''-''"
  by (auto simp: str_int_def dest: str_nat_digits split: if_splits)

lemma str_int_not_Nil: "str_int i \<noteq> []"
  by (simp add: str_int_def str_nat_not_Nil)

lemma str_int_last: "is_digit (last (str_int i))"
  using str_nat_digits [of "last (str_nat n)" n for n] str_nat_not_Nil
  by (simp add: str_int_def)

lemma str_int_hd: "is_digit (hd (str_int i)) \<or> hd (str_int i) = CHR ''-''"
  using str_int_chars [of "hd (str_int i)" i] str_int_not_Nil [of i] by simp

lemma str_int_no_space: "c \<in> set (str_int i) \<Longrightarrow> \<not> is_space c"
  using str_int_chars [of c i] is_digit_cases [of c] by (auto simp: is_space_def)

lemma int_signed_str_int: "int_signed (str_int i) = Some i"
proof (cases "i < 0")
  case True
  then show ?thesis by (simp add: str_int_def int_body_str_nat)
next
  case False
  obtain c cs where eq: "str_nat (nat i) = c # cs"
    using str_nat_not_Nil [of "nat i"] by (cases "str_nat (nat i)") auto
  then have "is_digit c" using str_nat_digits [of c "nat i"] by simp
  then have "c \<noteq> CHR ''-''" "c \<noteq> CHR ''+''" using is_digit_cases by auto
  moreover have "int_body (c # cs) = Some i"
    using int_body_str_nat [of "nat i"] eq False by simp
  ultimately show ?thesis using False eq by (simp add: str_int_def del: int_body.simps)
qed

lemma py_int_spaces_str_int:
  assumes "\<And>c. c \<in> set pre \<Longrightarrow> is_space c" "\<And>c. c \<in> set post \<Longrightarrow> is_space c"
  shows "py_int (pre @ str_int i @ post) = Some i"
proof -
  have "strip (pre @ str_int i @ post) = str_int i"
    using str_int_not_Nil [of i] str_int_no_space [of _ i] assms
    by (intro strip_spaces) auto
  then show ?thesis
    by (simp add: py_int_def int_signed_str_int)
qed

lemma py_int_str_int: "py_int (str_int i) = Some i"
  using py_int_spaces_str_int [of "[]" "[]" i] by simp

lemma py_int_space_str_int: "py_int (CHR '' '' # str_int i) = Some i"
  using py_int_spaces_str_int [of "'' ''" "[]" i] by (simp add: is_space_def)

lemma split_on_no_sep: "sep \<notin> set a \<Longrightarrow> split_on sep a = [a]"
  by (induction a) auto

lemma split_on_append: "sep \<notin> set a \<Longrightarrow> split_on sep (a @ sep # b) = a # split_on sep b"
  by (induction a) auto

lemma str_int_no_comma: "CHR '','' \<notin> set (str_int i)"
  using str_int_chars [of "CHR '',''" i] is_digit_cases [of "CHR '',''"] by auto

lemma split_key: "split_on (CHR '','') (key r c) = [str_int r, str_int c]"
  by (simp add: key_def split_on_append split_on_no_sep str_int_no_comma)

lemma ints2_key: "ints2 (split_on (CHR '','') (key r c)) = Inr (r, c)"
  by (simp add: split_key py_int_str_int)

lemma key_inject: "key r c = key r' c' \<longleftrightarrow> r = r' \<and> c = c'"
proof
  assume "key r c = key r' c'"
  then have "ints2 (split_on (CHR '','') (key r c)) = ints2 (split_on (CHR '','') (key r' c'))"
    by simp
  then show "r = r' \<and> c = c'" by (simp add: ints2_key)
qed simp


section \<open>Properties of the matrix operations\<close>

lemma key_ok_iff: "key_ok m k \<longleftrightarrow> (\<exists>r c. k = key r c \<and> r < rows m \<and> c < cols m)"
proof
  assume "key_ok m k"
  then show "\<exists>r c. k = key r c \<and> r < rows m \<and> c < cols m"
    by (auto simp: key_ok_def split: sum.splits)
next
  assume "\<exists>r c. k = key r c \<and> r < rows m \<and> c < cols m"
  then show "key_ok m k"
    by (auto simp: key_ok_def ints2_key)
qed

lemma well_formed_iff:
  "well_formed m \<longleftrightarrow>
     distinct (map fst (elements m)) \<and>
     (\<forall>k \<in> fst ` set (elements m). \<exists>r c. k = key r c \<and> r < rows m \<and> c < cols m)"
  by (simp add: well_formed_def list_all_iff key_ok_iff)

lemma elements_set_element [simp]:
  "elements (set_element m r c v) = AList.update (key r c) v (elements m)"
  by (simp add: set_element_def)

lemma rows_set_element [simp]: "rows (set_element m r c v) = max (rows m) (r + 1)"
  by (simp add: set_element_def max_def)

lemma cols_set_element [simp]: "cols (set_element m r c v) = max (cols m) (c + 1)"
  by (simp add: set_element_def max_def)

lemma get_element_set_element:
  "get_element (set_element m r c v) r' c' =
     (if r' = r \<and> c' = c then v else get_element m r' c')"
  by (simp add: get_element_def dict_get_def update_conv key_inject)

lemma get_element_SparseMatrix [simp]: "get_element (SparseMatrix n k) r c = 0"
  by (simp add: get_element_def dict_get_def SparseMatrix_def)

lemma well_formed_SparseMatrix: "well_formed (SparseMatrix n k)"
  by (simp add: well_formed_def SparseMatrix_def)

lemma well_formed_set_element:
  assumes "well_formed m"
  shows "well_formed (set_element m r c v)"
proof -
  have "distinct (map fst (elements (set_element m r c v)))"
    using assms by (simp add: well_formed_iff distinct_update)
  moreover have "\<exists>r' c'. k = key r' c' \<and> r' < rows (set_element m r c v) \<and> c' < cols (set_element m r c v)"
    if "k \<in> fst ` set (elements (set_element m r c v))" for k
  proof -
    from that have "k \<in> set (map fst (AList.update (key r c) v (elements m)))"
      by simp
    then have "k = key r c \<or> k \<in> fst ` set (elements m)"
      unfolding update_keys by (auto split: if_splits)
    then show ?thesis
    proof
      assume "k = key r c"
      then have "k = key r c \<and> r < rows (set_element m r c v) \<and> c < cols (set_element m r c v)"
        by (simp add: less_max_iff_disj)
      then show ?thesis by blast
    next
      assume "k \<in> fst ` set (elements m)"
      with assms obtain r' c' where "k = key r' c'" "r' < rows m" "c' < cols m"
        unfolding well_formed_iff by blast
      then have "k = key r' c' \<and> r' < rows (set_element m r c v) \<and> c' < cols (set_element m r c v)"
        by (simp add: less_max_iff_disj)
      then show ?thesis by blast
    qed
  qed
  ultimately show ?thesis unfolding well_formed_iff by blast
qed

lemma well_formed_set_elements: "well_formed m \<Longrightarrow> well_formed (set_elements m calls)"
  by (induction m calls rule: set_elements.induct) (simp_all add: well_formed_set_element)

lemma set_element_in_range:
  "r < rows m \<Longrightarrow> c < cols m \<Longrightarrow> rows (set_element m r c v) = rows m \<and> cols (set_element m r c v) = cols m"
  by simp

subsection \<open>The loops of \<^verbatim>\<open>add\<close> and \<^verbatim>\<open>subtract\<close>\<close>

text \<open>
  Over well-formed keys a loop runs to its end, and a property that every
  \<^const>\<open>set_element\<close> of the loop preserves holds of the matrix it returns.
\<close>

lemma copy_elements_rule:
  assumes "\<And>k. k \<in> fst ` set es \<Longrightarrow> \<exists>r c. k = key r c"
    and "P res"
    and "\<And>m r c v. P m \<Longrightarrow> (key r c, v) \<in> set es \<Longrightarrow> P (set_element m r c v)"
  shows "\<exists>res'. copy_elements es res = Inr res' \<and> P res'"
  using assms
proof (induction es arbitrary: res)
  case Nil
  then show ?case by simp
next
  case (Cons e es)
  obtain k v where e: "e = (k, v)" by (cases e)
  from Cons.prems(1) [of k] e obtain r c where k: "k = key r c" by auto
  have "P (set_element res r c v)"
    using Cons.prems(2,3) e k by simp
  then have "\<exists>res'. copy_elements es (set_element res r c v) = Inr res' \<and> P res'"
    using Cons.prems by (intro Cons.IH) auto
  then show ?case by (simp add: e k ints2_key)
qed

lemma merge_elements_rule:
  assumes "\<And>k. k \<in> fst ` set es \<Longrightarrow> \<exists>r c. k = key r c"
    and "P res"
    and "\<And>m r c v. P m \<Longrightarrow> (key r c, v) \<in> set es \<Longrightarrow>
           P (set_element m r c (f (get_element m r c) v))"
  shows "\<exists>res'. merge_elements f es res = Inr res' \<and> P res'"
  using assms
proof (induction es arbitrary: res)
  case Nil
  then show ?case by simp
next
  case (Cons e es)
  obtain k v where e: "e = (k, v)" by (cases e)
  from Cons.prems(1) [of k] e obtain r c where k: "k = key r c" by auto
  have "P (set_element res r c (f (get_element res r c) v))"
    using Cons.prems(2,3) e k by simp
  then have "\<exists>res'. merge_elements f es (set_element res r c (f (get_element res r c) v)) = Inr res' \<and> P res'"
    using Cons.prems by (intro Cons.IH) auto
  then show ?case by (simp add: e k ints2_key)
qed

lemma copy_elements_get:
  assumes "copy_elements es res = Inr res'" "distinct (map fst es)"
    and "\<And>k. k \<in> fst ` set es \<Longrightarrow> \<exists>r c. k = key r c"
  shows "get_element res' r c =
           (case map_of es (key r c) of None \<Rightarrow> get_element res r c | Some v \<Rightarrow> v)"
  using assms
proof (induction es arbitrary: res)
  case Nil
  then show ?case by simp
next
  case (Cons e es)
  obtain k v where e: "e = (k, v)" by (cases e)
  from Cons.prems(3) [of k] e obtain r0 c0 where k: "k = key r0 c0" by auto
  from Cons.prems(1) have run: "copy_elements es (set_element res r0 c0 v) = Inr res'"
    by (simp add: e k ints2_key)
  have IH: "get_element res' r c =
      (case map_of es (key r c) of None \<Rightarrow> get_element (set_element res r0 c0 v) r c | Some v \<Rightarrow> v)"
    using run Cons.prems(2,3) by (intro Cons.IH) auto
  show ?case
  proof (cases "key r c = k")
    case True
    then have "map_of es (key r c) = None"
      using Cons.prems(2) e by (auto simp: map_of_eq_None_iff)
    with True IH show ?thesis
      using k by (simp add: e get_element_set_element key_inject)
  next
    case False
    with IH show ?thesis
      using k by (auto simp add: e get_element_set_element key_inject split: option.splits)
  qed
qed

lemma merge_elements_get:
  assumes "merge_elements f es res = Inr res'" "distinct (map fst es)"
    and "\<And>k. k \<in> fst ` set es \<Longrightarrow> \<exists>r c. k = key r c"
  shows "get_element res' r c =
           (case map_of es (key r c) of
              None \<Rightarrow> get_element res r c
            | Some v \<Rightarrow> f (get_element res r c) v)"
  using assms
proof (induction es arbitrary: res)
  case Nil
  then show ?case by simp
next
  case (Cons e es)
  obtain k v where e: "e = (k, v)" by (cases e)
  from Cons.prems(3) [of k] e obtain r0 c0 where k: "k = key r0 c0" by auto
  let ?res1 = "set_element res r0 c0 (f (get_element res r0 c0) v)"
  from Cons.prems(1) have run: "merge_elements f es ?res1 = Inr res'"
    by (simp add: e k ints2_key)
  have IH: "get_element res' r c =
      (case map_of es (key r c) of None \<Rightarrow> get_element ?res1 r c
       | Some v \<Rightarrow> f (get_element ?res1 r c) v)"
    using run Cons.prems(2,3) by (intro Cons.IH) auto
  show ?case
  proof (cases "key r c = k")
    case True
    then have "map_of es (key r c) = None"
      using Cons.prems(2) e by (auto simp: map_of_eq_None_iff)
    with True IH show ?thesis
      using k by (simp add: e get_element_set_element key_inject)
  next
    case False
    with IH show ?thesis
      using k by (auto simp add: e get_element_set_element key_inject split: option.splits)
  qed
qed

lemma well_formed_keys: "well_formed m \<Longrightarrow> k \<in> fst ` set (elements m) \<Longrightarrow> \<exists>r c. k = key r c"
  unfolding well_formed_iff by blast

lemma well_formed_distinct: "well_formed m \<Longrightarrow> distinct (map fst (elements m))"
  unfolding well_formed_iff by blast

lemma well_formed_in_range:
  assumes "well_formed m" "(key r c, v) \<in> set (elements m)"
  shows "r < rows m \<and> c < cols m"
proof -
  from assms(2) have "key r c \<in> fst ` set (elements m)" by force
  with assms(1) obtain r' c' where "key r c = key r' c'" "r' < rows m" "c' < cols m"
    unfolding well_formed_iff by blast
  then show ?thesis by (simp add: key_inject)
qed

lemma get_element_stored:
  "well_formed m \<Longrightarrow> (key r c, v) \<in> set (elements m) \<Longrightarrow> get_element m r c = v"
  by (simp add: get_element_def dict_get_def well_formed_distinct)

lemma combine_result:
  assumes A: "well_formed A" and B: "well_formed B"
    and dims: "rows A = rows B" "cols A = cols B"
  shows "\<exists>res1 R. copy_elements (elements A)
                    (SparseMatrix (max (rows A) (rows B)) (max (cols A) (cols B))) = Inr res1 \<and>
           merge_elements f (elements B) res1 = Inr R \<and>
           well_formed R \<and> rows R = rows A \<and> cols R = cols A \<and>
           (\<forall>r c. get_element R r c =
              (case map_of (elements B) (key r c) of
                 None \<Rightarrow> get_element A r c
               | Some v \<Rightarrow> f (get_element A r c) v))"
proof -
  let ?P = "\<lambda>m. well_formed m \<and> rows m = rows A \<and> cols m = cols A"
  let ?init = "SparseMatrix (max (rows A) (rows B)) (max (cols A) (cols B))"
  have init: "?P ?init"
    using dims by (simp add: well_formed_SparseMatrix) (simp add: SparseMatrix_def)
  have "\<exists>res1. copy_elements (elements A) ?init = Inr res1 \<and> ?P res1"
  proof (rule copy_elements_rule [where P = ?P])
    show "\<exists>r c. k = key r c" if "k \<in> fst ` set (elements A)" for k
      using that A by (rule well_formed_keys [rotated])
    show "?P ?init" by (rule init)
    show "?P (set_element m r c v)" if "?P m" "(key r c, v) \<in> set (elements A)" for m r c v
      using that well_formed_in_range [OF A that(2)] by (simp add: well_formed_set_element)
  qed
  then obtain res1 where copy: "copy_elements (elements A) ?init = Inr res1" and P1: "?P res1"
    by blast
  have "\<exists>R. merge_elements f (elements B) res1 = Inr R \<and> ?P R"
  proof (rule merge_elements_rule [where P = ?P])
    show "\<exists>r c. k = key r c" if "k \<in> fst ` set (elements B)" for k
      using that B by (rule well_formed_keys [rotated])
    show "?P res1" by (rule P1)
    show "?P (set_element m r c (f (get_element m r c) v))"
      if "?P m" "(key r c, v) \<in> set (elements B)" for m r c v
      using that well_formed_in_range [OF B that(2)] dims by (simp add: well_formed_set_element)
  qed
  then obtain R where merge: "merge_elements f (elements B) res1 = Inr R" and PR: "?P R"
    by blast
  have get1: "get_element res1 r c = get_element A r c" for r c
  proof -
    have "get_element res1 r c = (case map_of (elements A) (key r c) of None \<Rightarrow> 0 | Some v \<Rightarrow> v)"
      using copy_elements_get [OF copy well_formed_distinct [OF A] well_formed_keys [OF A], of r c]
      by (simp split: option.splits)
    then show ?thesis by (simp add: get_element_def dict_get_def)
  qed
  have getR: "get_element R r c =
      (case map_of (elements B) (key r c) of
         None \<Rightarrow> get_element A r c | Some v \<Rightarrow> f (get_element A r c) v)" for r c
    using merge_elements_get [OF merge well_formed_distinct [OF B] well_formed_keys [OF B], of r c]
    by (simp add: get1 split: option.splits)
  from copy merge PR getR show ?thesis by blast
qed

lemma add_result:
  assumes "well_formed A" "well_formed B" "rows A = rows B" "cols A = cols B"
  shows "\<exists>R. add A B = Inr R \<and> well_formed R \<and> rows R = rows A \<and> cols R = cols A \<and>
           (\<forall>r c. get_element R r c = get_element A r c + get_element B r c)"
proof -
  from combine_result [OF assms, of "(+)"] obtain res1 R where
    "copy_elements (elements A) (SparseMatrix (max (rows A) (rows B)) (max (cols A) (cols B))) = Inr res1"
    "merge_elements (+) (elements B) res1 = Inr R"
    "well_formed R" "rows R = rows A" "cols R = cols A"
    and get: "\<And>r c. get_element R r c =
              (case map_of (elements B) (key r c) of
                 None \<Rightarrow> get_element A r c
               | Some v \<Rightarrow> get_element A r c + v)"
    by blast
  moreover have "get_element R r c = get_element A r c + get_element B r c" for r c
    by (simp add: get [of r c]) (simp add: get_element_def dict_get_def split: option.splits)
  ultimately show ?thesis using assms(3,4) by (simp add: add_def)
qed

lemma subtract_result:
  assumes "well_formed A" "well_formed B" "rows A = rows B" "cols A = cols B"
  shows "\<exists>R. subtract A B = Inr R \<and> well_formed R \<and> rows R = rows A \<and> cols R = cols A \<and>
           (\<forall>r c. get_element R r c = get_element A r c - get_element B r c)"
proof -
  from combine_result [OF assms, of "(-)"] obtain res1 R where
    "copy_elements (elements A) (SparseMatrix (max (rows A) (rows B)) (max (cols A) (cols B))) = Inr res1"
    "merge_elements (-) (elements B) res1 = Inr R"
    "well_formed R" "rows R = rows A" "cols R = cols A"
    and get: "\<And>r c. get_element R r c =
              (case map_of (elements B) (key r c) of
                 None \<Rightarrow> get_element A r c
               | Some v \<Rightarrow> get_element A r c - v)"
    by blast
  moreover have "get_element R r c = get_element A r c - get_element B r c" for r c
    by (simp add: get [of r c]) (simp add: get_element_def dict_get_def split: option.splits)
  ultimately show ?thesis using assms(3,4) by (simp add: subtract_def)
qed

text \<open>
  Claim C1. For matrices \<open>A\<close> and \<open>B\<close> with equal \<^const>\<open>rows\<close> and equal \<^const>\<open>cols\<close>,
  \<^const>\<open>add\<close> returns a matrix whose element at every coordinate is the sum of the
  operands' elements there, and \<^const>\<open>subtract\<close> one whose element is their
  difference. The coordinates are not restricted to the range of the dimensions:
  outside it all three elements are \<open>0\<close>.
\<close>

theorem add_subtract_elementwise:
  assumes "well_formed A" and "well_formed B"
    and "rows A = rows B" and "cols A = cols B"
  shows "(\<exists>R. add A B = Inr R \<and>
              (\<forall>r c. get_element R r c = get_element A r c + get_element B r c)) \<and>
         (\<exists>R. subtract A B = Inr R \<and>
              (\<forall>r c. get_element R r c = get_element A r c - get_element B r c))"
  using add_result [OF assms] subtract_result [OF assms] by blast

theorem add_subtract_elementwise_witness:
  "well_formed example_A \<and> well_formed example_B \<and>
   rows example_A = rows example_B \<and> cols example_A = cols example_B \<and>
   (\<exists>R. add example_A example_B = Inr R \<and>
        get_element R 1 0 = get_element example_A 1 0 + get_element example_B 1 0) \<and>
   (\<exists>R. subtract example_A example_B = Inr R \<and>
        get_element R 1 0 = get_element example_A 1 0 - get_element example_B 1 0)"
proof -
  have h: "well_formed example_A" "well_formed example_B"
    "rows example_A = rows example_B" "cols example_A = cols example_B"
    by (code_simp+)
  show ?thesis
    using h add_subtract_elementwise [OF h] by blast
qed

subsection \<open>The loops of \<^verbatim>\<open>multiply\<close>\<close>

lemma dict_get_Nil [simp]: "dict_get [] k = 0"
  by (simp add: dict_get_def)

lemma multiply_inner_rule:
  assumes "\<And>k. k \<in> fst ` set es \<Longrightarrow> \<exists>r c. k = key r c"
    and "P res"
    and "\<And>m r2 c2 v2. P m \<Longrightarrow> (key r2 c2, v2) \<in> set es \<Longrightarrow> c1 = r2 \<Longrightarrow>
           P (set_element m r1 c2 (get_element m r1 c2 + v1 * v2))"
  shows "\<exists>res'. multiply_inner r1 c1 v1 es res = Inr res' \<and> P res'"
  using assms
proof (induction es arbitrary: res)
  case Nil
  then show ?case by simp
next
  case (Cons e es)
  obtain k v where e: "e = (k, v)" by (cases e)
  from Cons.prems(1) [of k] e obtain r2 c2 where k: "k = key r2 c2" by auto
  let ?res1 = "if c1 = r2 then set_element res r1 c2 (get_element res r1 c2 + v1 * v) else res"
  have "P ?res1"
    using Cons.prems(2) Cons.prems(3) [of res r2 c2 v] e k by auto
  then have "\<exists>res'. multiply_inner r1 c1 v1 es ?res1 = Inr res' \<and> P res'"
  proof (rule Cons.IH [rotated])
    show "\<exists>r c. k = key r c" if "k \<in> fst ` set es" for k
      using that Cons.prems(1) [of k] by auto
    show "P (set_element m r1 c2 (get_element m r1 c2 + v1 * v2))"
      if "P m" "(key r2 c2, v2) \<in> set es" "c1 = r2" for m r2 c2 v2
      using that Cons.prems(3) [of m r2 c2 v2] by simp
  qed
  then show ?case by (simp add: e k ints2_key)
qed

lemma multiply_inner_get:
  assumes "multiply_inner r1 c1 v1 es res = Inr res'" "distinct (map fst es)"
    and "\<And>k. k \<in> fst ` set es \<Longrightarrow> \<exists>r c. k = key r c"
  shows "get_element res' r c =
           get_element res r c +
           (if r = r1 then v1 * dict_get es (key c1 c) else 0)"
  using assms
proof (induction es arbitrary: res)
  case Nil
  then show ?case by simp
next
  case (Cons e es)
  obtain k v where e: "e = (k, v)" by (cases e)
  from Cons.prems(3) [of k] e obtain r2 c2 where k: "k = key r2 c2" by auto
  let ?res1 = "if c1 = r2 then set_element res r1 c2 (get_element res r1 c2 + v1 * v) else res"
  from Cons.prems(1) have run: "multiply_inner r1 c1 v1 es ?res1 = Inr res'"
    by (simp add: e k ints2_key)
  have IH: "get_element res' r c =
      get_element ?res1 r c +
      (if r = r1 then v1 * dict_get es (key c1 c) else 0)"
    using run Cons.prems(2,3) by (intro Cons.IH) auto
  show ?case
  proof (cases "key c1 c = k")
    case True
    then have "map_of es (key c1 c) = None"
      using Cons.prems(2) e by (auto simp: map_of_eq_None_iff)
    then have none: "dict_get es (key c1 c) = 0"
      by (simp add: dict_get_def)
    from True k have eq: "c1 = r2" "c = c2" by (simp_all add: key_inject)
    show ?thesis
      unfolding IH none using True eq by (simp add: e dict_get_def get_element_set_element)
  next
    case False
    then have "\<not> (c1 = r2 \<and> c = c2)" using k by auto
    then have "get_element ?res1 r c = get_element res r c"
      by (auto simp: get_element_set_element)
    then show ?thesis
      unfolding IH using False by (simp add: e dict_get_def)
  qed
qed

lemma multiply_outer_rule:
  assumes "\<And>k. k \<in> fst ` set es1 \<Longrightarrow> \<exists>r c. k = key r c"
    and "\<And>k. k \<in> fst ` set es2 \<Longrightarrow> \<exists>r c. k = key r c"
    and "P res"
    and "\<And>m r1 c1 v1 c2 v2. P m \<Longrightarrow> (key r1 c1, v1) \<in> set es1 \<Longrightarrow>
           (key c1 c2, v2) \<in> set es2 \<Longrightarrow>
           P (set_element m r1 c2 (get_element m r1 c2 + v1 * v2))"
  shows "\<exists>res'. multiply_outer es1 es2 res = Inr res' \<and> P res'"
  using assms
proof (induction es1 arbitrary: res)
  case Nil
  then show ?case by simp
next
  case (Cons e es1)
  obtain k v1 where e: "e = (k, v1)" by (cases e)
  from Cons.prems(1) [of k] e obtain r1 c1 where k: "k = key r1 c1" by auto
  have "\<exists>res1. multiply_inner r1 c1 v1 es2 res = Inr res1 \<and> P res1"
  proof (rule multiply_inner_rule [where P = P])
    show "\<exists>r c. k = key r c" if "k \<in> fst ` set es2" for k
      using that by (rule Cons.prems(2))
    show "P res" by (rule Cons.prems(3))
    show "P (set_element m r1 c2 (get_element m r1 c2 + v1 * v2))"
      if "P m" "(key r2 c2, v2) \<in> set es2" "c1 = r2" for m r2 c2 v2
      using that Cons.prems(4) [of m r1 c1 v1 c2 v2] e k by simp
  qed
  then obtain res1 where inner: "multiply_inner r1 c1 v1 es2 res = Inr res1" and P1: "P res1"
    by blast
  have "\<exists>res'. multiply_outer es1 es2 res1 = Inr res' \<and> P res'"
  proof (rule Cons.IH)
    show "\<exists>r c. k = key r c" if "k \<in> fst ` set es1" for k
      using that Cons.prems(1) [of k] by auto
    show "\<exists>r c. k = key r c" if "k \<in> fst ` set es2" for k
      using that by (rule Cons.prems(2))
    show "P res1" by (rule P1)
    show "P (set_element m r1 c2 (get_element m r1 c2 + v1 * v2))"
      if "P m" "(key r1 c1, v1) \<in> set es1" "(key c1 c2, v2) \<in> set es2" for m r1 c1 v1 c2 v2
      using that Cons.prems(4) [of m r1 c1 v1 c2 v2] by simp
  qed
  then show ?case by (simp add: e k ints2_key inner)
qed

lemma multiply_outer_get:
  assumes "multiply_outer es1 es2 res = Inr res'"
    and "distinct (map fst es1)" "distinct (map fst es2)"
    and "\<And>k. k \<in> fst ` set es1 \<Longrightarrow> \<exists>r c. k = key r c"
    and "\<And>k. k \<in> fst ` set es2 \<Longrightarrow> \<exists>r c. k = key r c"
    and "finite K" "\<And>k. key r k \<in> fst ` set es1 \<Longrightarrow> k \<in> K"
  shows "get_element res' r c =
           get_element res r c +
           (\<Sum>k\<in>K. dict_get es1 (key r k) * dict_get es2 (key k c))"
  using assms(1,2,4,7)
proof (induction es1 arbitrary: res)
  case Nil
  then show ?case by simp
next
  case (Cons e es1)
  let ?g = "\<lambda>k. dict_get es2 (key k c)"
  let ?f = "\<lambda>es k. dict_get es (key r k)"
  obtain k1 v1 where e: "e = (k1, v1)" by (cases e)
  from Cons.prems(3) [of k1] e obtain r1 c1 where k1: "k1 = key r1 c1" by auto
  from Cons.prems(1) obtain res1 where
    inner: "multiply_inner r1 c1 v1 es2 res = Inr res1" and
    outer: "multiply_outer es1 es2 res1 = Inr res'"
    by (auto simp: e k1 ints2_key split: sum.splits)
  have get1: "get_element res1 r c = get_element res r c + (if r = r1 then v1 * ?g c1 else 0)"
    using multiply_inner_get [OF inner assms(3,5), of r c] by simp
  have IH: "get_element res' r c = get_element res1 r c + (\<Sum>k\<in>K. ?f es1 k * ?g k)"
    using outer Cons.prems(2,3,4) by (intro Cons.IH) auto
  have "(if r = r1 then v1 * ?g c1 else 0) + (\<Sum>k\<in>K. ?f es1 k * ?g k)
      = (\<Sum>k\<in>K. ?f (e # es1) k * ?g k)"
  proof (cases "r = r1")
    case False
    then have "?f (e # es1) k = ?f es1 k" for k
      by (simp add: e k1 key_inject dict_get_def)
    with False show ?thesis by simp
  next
    case True
    have inK: "c1 \<in> K" using Cons.prems(4) [of c1] True e k1 by simp
    have "map_of es1 (key r c1) = None"
      using Cons.prems(2) e k1 True by (auto simp: map_of_eq_None_iff)
    then have zero: "?f es1 c1 = 0" by (simp add: dict_get_def)
    have here: "?f (e # es1) c1 = v1" by (simp add: e k1 True dict_get_def)
    have other: "?f (e # es1) k = ?f es1 k" if "k \<noteq> c1" for k
      using that by (simp add: e k1 True key_inject dict_get_def)
    have "(\<Sum>k\<in>K. ?f (e # es1) k * ?g k)
        = ?f (e # es1) c1 * ?g c1 + (\<Sum>k\<in>K - {c1}. ?f (e # es1) k * ?g k)"
      using assms(6) inK by (rule sum.remove)
    also have "(\<Sum>k\<in>K - {c1}. ?f (e # es1) k * ?g k) = (\<Sum>k\<in>K - {c1}. ?f es1 k * ?g k)"
      by (rule sum.cong) (simp_all add: other)
    also have "?f (e # es1) c1 * ?g c1 = v1 * ?g c1 + ?f es1 c1 * ?g c1"
      by (simp only: here zero)
    finally have "(\<Sum>k\<in>K. ?f (e # es1) k * ?g k)
        = v1 * ?g c1 + (?f es1 c1 * ?g c1 + (\<Sum>k\<in>K - {c1}. ?f es1 k * ?g k))"
      by simp
    also have "?f es1 c1 * ?g c1 + (\<Sum>k\<in>K - {c1}. ?f es1 k * ?g k) = (\<Sum>k\<in>K. ?f es1 k * ?g k)"
      using sum.remove [OF assms(6) inK, of "\<lambda>k. ?f es1 k * ?g k"] by simp
    finally show ?thesis using True by simp
  qed
  then show ?case unfolding IH get1 by simp
qed

lemma multiply_result:
  assumes A: "well_formed A" and B: "well_formed B" and dims: "cols A = rows B"
  shows "\<exists>R. multiply A B = Inr R \<and> well_formed R \<and> rows R = rows A \<and> cols R = cols B"
proof -
  let ?P = "\<lambda>m. well_formed m \<and> rows m = rows A \<and> cols m = cols B"
  have "\<exists>R. multiply_outer (elements A) (elements B) (SparseMatrix (rows A) (cols B)) = Inr R \<and> ?P R"
  proof (rule multiply_outer_rule [where P = ?P])
    show "\<exists>r c. k = key r c" if "k \<in> fst ` set (elements A)" for k
      using that A by (rule well_formed_keys [rotated])
    show "\<exists>r c. k = key r c" if "k \<in> fst ` set (elements B)" for k
      using that B by (rule well_formed_keys [rotated])
    show "?P (SparseMatrix (rows A) (cols B))"
      by (simp add: well_formed_SparseMatrix) (simp add: SparseMatrix_def)
    show "?P (set_element m r1 c2 (get_element m r1 c2 + v1 * v2))"
      if "?P m" "(key r1 c1, v1) \<in> set (elements A)" "(key c1 c2, v2) \<in> set (elements B)"
      for m r1 c1 v1 c2 v2
      using that well_formed_in_range [OF A that(2)] well_formed_in_range [OF B that(3)]
      by (simp add: well_formed_set_element)
  qed
  then show ?thesis using dims by (simp add: multiply_def)
qed

lemma finite_stored_columns: "finite {k. key r k \<in> fst ` set es}"
proof -
  have "inj (key r)" by (simp add: inj_def key_inject)
  then have "finite (key r -` (fst ` set es))"
    by (intro finite_vimageI) simp_all
  then show ?thesis by (simp add: vimage_def)
qed

lemma multiply_get:
  assumes A: "well_formed A" and B: "well_formed B" and run: "multiply A B = Inr R"
    and K: "finite K" "\<And>k. get_element A r k * get_element B k c \<noteq> 0 \<Longrightarrow> k \<in> K"
  shows "get_element R r c = (\<Sum>k\<in>K. get_element A r k * get_element B k c)"
proof -
  let ?S = "{k. key r k \<in> fst ` set (elements A)}"
  let ?f = "\<lambda>k. get_element A r k * get_element B k c"
  from run have outer:
    "multiply_outer (elements A) (elements B) (SparseMatrix (rows A) (cols B)) = Inr R"
    by (simp add: multiply_def split: if_splits)
  have fin: "finite (K \<union> ?S)" using K(1) finite_stored_columns by simp
  have "get_element R r c =
      get_element (SparseMatrix (rows A) (cols B)) r c +
      (\<Sum>k\<in>K \<union> ?S. dict_get (elements A) (key r k) * dict_get (elements B) (key k c))"
  proof (rule multiply_outer_get [OF outer well_formed_distinct [OF A] well_formed_distinct [OF B]
        well_formed_keys [OF A] well_formed_keys [OF B] fin])
    fix k
    assume "key r k \<in> fst ` set (elements A)"
    then show "k \<in> K \<union> ?S" by simp
  qed
  then have "get_element R r c = (\<Sum>k\<in>K \<union> ?S. ?f k)"
    unfolding get_element_SparseMatrix by (simp add: get_element_def)
  also have "\<dots> = (\<Sum>k\<in>K. ?f k)"
  proof (rule sum.mono_neutral_right [OF fin])
    show "K \<subseteq> K \<union> ?S" by simp
    show "\<forall>k\<in>K \<union> ?S - K. ?f k = 0" using K(2) by blast
  qed
  finally show ?thesis .
qed

lemma stored_or_zero:
  "get_element m r c \<noteq> 0 \<Longrightarrow> \<exists>v. (key r c, v) \<in> set (elements m)"
  by (auto simp: get_element_def dict_get_def split: option.splits dest: map_of_SomeD)

lemma multiply_sum_over_columns:
  assumes A: "well_formed A" and B: "well_formed B" and dims: "cols A = rows B"
    and nonneg: "\<And>k v. (key r k, v) \<in> set (elements A) \<Longrightarrow> 0 \<le> k"
  shows "\<exists>R. multiply A B = Inr R \<and>
           get_element R r c = (\<Sum>k = 0..<cols A. get_element A r k * get_element B k c)"
proof -
  have "k \<in> {0..<cols A}" if "get_element A r k * get_element B k c \<noteq> 0" for k
  proof -
    from that have "get_element A r k \<noteq> 0" by auto
    then obtain v where v: "(key r k, v) \<in> set (elements A)"
      using stored_or_zero by blast
    from nonneg [OF v] well_formed_in_range [OF A v] show ?thesis by simp
  qed
  with multiply_result [OF A B dims] multiply_get [OF A B, of _ "{0..<cols A}" r c]
  show ?thesis by fastforce
qed




subsection \<open>Dimension errors\<close>

lemma add_mismatch_iff:
  assumes "well_formed A" "well_formed B"
  shows "add A B = Inl (ValueError AdditionMismatch) \<longleftrightarrow> rows A \<noteq> rows B \<or> cols A \<noteq> cols B"
    and "(\<exists>R. add A B = Inr R) \<longleftrightarrow> rows A = rows B \<and> cols A = cols B"
proof -
  show "add A B = Inl (ValueError AdditionMismatch) \<longleftrightarrow> rows A \<noteq> rows B \<or> cols A \<noteq> cols B"
  proof (cases "rows A = rows B \<and> cols A = cols B")
    case True
    with add_result [OF assms] show ?thesis by auto
  next
    case False
    then show ?thesis by (auto simp: add_def)
  qed
  show "(\<exists>R. add A B = Inr R) \<longleftrightarrow> rows A = rows B \<and> cols A = cols B"
  proof (cases "rows A = rows B \<and> cols A = cols B")
    case True
    with add_result [OF assms] show ?thesis by auto
  next
    case False
    then show ?thesis by (auto simp: add_def)
  qed
qed

lemma subtract_mismatch_iff:
  assumes "well_formed A" "well_formed B"
  shows "subtract A B = Inl (ValueError SubtractionMismatch) \<longleftrightarrow>
           rows A \<noteq> rows B \<or> cols A \<noteq> cols B"
    and "(\<exists>R. subtract A B = Inr R) \<longleftrightarrow> rows A = rows B \<and> cols A = cols B"
proof -
  show "subtract A B = Inl (ValueError SubtractionMismatch) \<longleftrightarrow>
          rows A \<noteq> rows B \<or> cols A \<noteq> cols B"
  proof (cases "rows A = rows B \<and> cols A = cols B")
    case True
    with subtract_result [OF assms] show ?thesis by auto
  next
    case False
    then show ?thesis by (auto simp: subtract_def)
  qed
  show "(\<exists>R. subtract A B = Inr R) \<longleftrightarrow> rows A = rows B \<and> cols A = cols B"
  proof (cases "rows A = rows B \<and> cols A = cols B")
    case True
    with subtract_result [OF assms] show ?thesis by auto
  next
    case False
    then show ?thesis by (auto simp: subtract_def)
  qed
qed

lemma multiply_mismatch_iff:
  assumes "well_formed A" "well_formed B"
  shows "multiply A B = Inl (ValueError MultiplicationMismatch) \<longleftrightarrow> cols A \<noteq> rows B"
    and "(\<exists>R. multiply A B = Inr R) \<longleftrightarrow> cols A = rows B"
proof -
  show "multiply A B = Inl (ValueError MultiplicationMismatch) \<longleftrightarrow> cols A \<noteq> rows B"
  proof (cases "cols A = rows B")
    case True
    with multiply_result [OF assms] show ?thesis by auto
  next
    case False
    then show ?thesis by (simp add: multiply_def)
  qed
  show "(\<exists>R. multiply A B = Inr R) \<longleftrightarrow> cols A = rows B"
  proof (cases "cols A = rows B")
    case True
    with multiply_result [OF assms] show ?thesis by auto
  next
    case False
    then show ?thesis by (simp add: multiply_def)
  qed
qed

text \<open>
  Claim C6. The dimension error of an operation is the \<^verbatim>\<open>ValueError\<close> with that
  operation's message. \<^const>\<open>add\<close> and \<^const>\<open>subtract\<close> raise it exactly when the
  operands differ in \<^const>\<open>rows\<close> or in \<^const>\<open>cols\<close>, \<^const>\<open>multiply\<close> exactly when
  \<open>cols A \<noteq> rows B\<close>, and each operation returns a matrix exactly when its
  dimensions match.
\<close>

theorem dimension_mismatch:
  assumes "well_formed A" and "well_formed B"
  shows "(add A B = Inl (ValueError AdditionMismatch) \<longleftrightarrow>
            rows A \<noteq> rows B \<or> cols A \<noteq> cols B) \<and>
         ((\<exists>R. add A B = Inr R) \<longleftrightarrow> rows A = rows B \<and> cols A = cols B) \<and>
         (subtract A B = Inl (ValueError SubtractionMismatch) \<longleftrightarrow>
            rows A \<noteq> rows B \<or> cols A \<noteq> cols B) \<and>
         ((\<exists>R. subtract A B = Inr R) \<longleftrightarrow> rows A = rows B \<and> cols A = cols B) \<and>
         (multiply A B = Inl (ValueError MultiplicationMismatch) \<longleftrightarrow> cols A \<noteq> rows B) \<and>
         ((\<exists>R. multiply A B = Inr R) \<longleftrightarrow> cols A = rows B)"
  using add_mismatch_iff [OF assms] subtract_mismatch_iff [OF assms]
    multiply_mismatch_iff [OF assms]
  by blast

theorem dimension_mismatch_witness:
  "well_formed example_A \<and> well_formed example_C \<and>
   add example_A example_C = Inl (ValueError AdditionMismatch) \<and>
   subtract example_A example_C = Inl (ValueError SubtractionMismatch) \<and>
   (\<exists>R. multiply example_A example_C = Inr R) \<and>
   multiply example_C example_A = Inl (ValueError MultiplicationMismatch)"
proof -
  have h: "well_formed example_A" "well_formed example_C" by (code_simp+)
  have d: "cols example_A \<noteq> cols example_C" "cols example_A = rows example_C"
    "cols example_C \<noteq> rows example_A"
    by (code_simp+)
  show ?thesis
    using h d dimension_mismatch [OF h] dimension_mismatch [OF h(2) h(1)] by blast
qed

subsection \<open>Reading and writing elements\<close>

lemma get_element_set_elements:
  "(r, c) \<notin> (\<lambda>(r', c', v'). (r', c')) ` set calls \<Longrightarrow>
     get_element (set_elements m calls) r c = get_element m r c"
  by (induction m calls rule: set_elements.induct) (auto simp: get_element_set_element)

text \<open>
  Claim C3. \<^const>\<open>get_element\<close> is a total function, so it never fails. On a matrix
  made by \<^const>\<open>SparseMatrix\<close> and any sequence of calls of \<^const>\<open>set_element\<close>, a
  coordinate that none of the calls has set reads as \<open>0\<close>. After
  \<open>set_element M r c v\<close> the coordinate reads as \<open>v\<close>, \<^const>\<open>rows\<close> is at least
  \<open>r + 1\<close> and \<^const>\<open>cols\<close> at least \<open>c + 1\<close>, and neither dimension has shrunk.
\<close>

theorem get_and_set:
  "((r, c) \<notin> (\<lambda>(r', c', v'). (r', c')) ` set calls \<longrightarrow>
      get_element (set_elements (SparseMatrix n k) calls) r c = 0) \<and>
   get_element (set_element M r c v) r c = v \<and>
   rows (set_element M r c v) \<ge> r + 1 \<and> cols (set_element M r c v) \<ge> c + 1 \<and>
   rows (set_element M r c v) \<ge> rows M \<and> cols (set_element M r c v) \<ge> cols M"
  by (simp add: get_element_set_elements get_element_set_element)

theorem get_and_set_witness:
  "(1 :: int, 1 :: int) \<notin> (\<lambda>(r', c', v'). (r', c')) ` set [(0, 0, 1 :: int), (1, 0, - 4)] \<and>
   get_element (set_elements (SparseMatrix 2 2) [(0, 0, 1), (1, 0, - 4)]) 1 1 = 0 \<and>
   get_element (set_element example_A 3 0 7) 3 0 = 7 \<and>
   rows (set_element example_A 3 0 7) \<ge> 4 \<and> cols (set_element example_A 3 0 7) \<ge> 1 \<and>
   rows (set_element example_A 3 0 7) \<ge> rows example_A"
  using get_and_set [of 1 1 "[(0, 0, 1), (1, 0, - 4)]" 2 2]
    get_and_set [of 3 0 "[]" 0 0 example_A 7]
  by simp

section \<open>The text of a matrix\<close>

lemma items_of_keys:
  "(\<And>k. k \<in> fst ` set es \<Longrightarrow> \<exists>r c. k = key r c) \<Longrightarrow> \<exists>cells. es = map item cells"
proof (induction es)
  case Nil
  then show ?case by simp
next
  case (Cons e es)
  obtain k v where e: "e = (k, v)" by (cases e)
  from Cons.prems [of k] e obtain r c where k: "k = key r c" by auto
  from Cons obtain cells where "es = map item cells" by auto
  then have "e # es = map item ((r, c, v) # cells)" by (simp add: e k item_def)
  then show ?case by (rule exI)
qed

lemma well_formed_items: "well_formed m \<Longrightarrow> \<exists>cells. elements m = map item cells"
  using items_of_keys [of "elements m"] well_formed_keys [of m] by blast

lemma item_simp [simp]: "item (r, c, v) = (key r c, v)"
  by (simp add: item_def)

lemma element_line_simp:
  "element_line (r, c, v) = ''('' @ str_int r @ '', '' @ str_int c @ '', '' @ str_int v @ '')''"
  by (simp add: element_line_def)

lemma to_string_loop_items:
  "to_string_loop (map item cells) acc =
     Inr (acc @ concat (map (\<lambda>cell. element_line cell @ [LF]) cells))"
proof (induction cells arbitrary: acc)
  case Nil
  then show ?case by simp
next
  case (Cons cell cells)
  obtain r c v where cell: "cell = (r, c, v)" by (cases cell)
  show ?case
    by (simp add: cell split_key Cons.IH element_line_simp)
qed

lemma concat_lines: "ls \<noteq> [] \<Longrightarrow> concat (map (\<lambda>l. l @ [LF]) ls) = join_lines ls @ [LF]"
  by (induction ls rule: join_lines.induct) simp_all

lemma join_lines_Nil_iff: "join_lines ls = [] \<longleftrightarrow> ls = [] \<or> ls = [[]]"
  by (induction ls rule: join_lines.induct) simp_all

lemma join_lines_hd: "ls \<noteq> [] \<Longrightarrow> hd ls \<noteq> [] \<Longrightarrow> hd (join_lines ls) = hd (hd ls)"
  by (induction ls rule: join_lines.induct) simp_all

lemma join_lines_last:
  "ls \<noteq> [] \<Longrightarrow> last ls \<noteq> [] \<Longrightarrow> last (join_lines ls) = last (last ls)"
  by (induction ls rule: join_lines.induct) (auto simp: join_lines_Nil_iff)

lemma join_lines_not_Nil: "ls \<noteq> [] \<Longrightarrow> last ls \<noteq> [] \<Longrightarrow> join_lines ls \<noteq> []"
  by (auto simp: join_lines_Nil_iff)

lemma not_space_simps:
  "\<not> is_space (CHR ''r'')" "\<not> is_space (CHR ''c'')" "\<not> is_space (CHR ''('')" "\<not> is_space (CHR '')'')"
  "is_space LF" "is_space (CHR '' '')"
  by (simp_all add: is_space_def LF_def)

lemma element_line_ends:
  "element_line cell \<noteq> []" "hd (element_line cell) = CHR ''(''"
  "last (element_line cell) = CHR '')''"
  by (cases cell; simp add: element_line_simp)+

lemma to_string_items:
  assumes "elements m = map item cells"
  shows "to_string m =
     Inr (join_lines ((''rows='' @ str_int (rows m)) # (''cols='' @ str_int (cols m)) #
                      map element_line cells))"
proof -
  let ?ls = "(''rows='' @ str_int (rows m)) # (''cols='' @ str_int (cols m)) # map element_line cells"
  have loop: "to_string_loop (elements m)
      (''rows='' @ str_int (rows m) @ [LF] @ ''cols='' @ str_int (cols m) @ [LF])
      = Inr (concat (map (\<lambda>l. l @ [LF]) ?ls))"
    by (simp add: assms to_string_loop_items comp_def)
  have joined: "concat (map (\<lambda>l. l @ [LF]) ?ls) = join_lines ?ls @ [LF]"
    by (rule concat_lines) simp
  have last_line: "last ?ls \<noteq> [] \<and> \<not> is_space (last (last ?ls))"
  proof (cases cells rule: rev_cases)
    case Nil
    then show ?thesis
      using str_int_last [of "cols m"] is_digit_cases [of "last (str_int (cols m))"]
      by (simp add: str_int_not_Nil)
  next
    case (snoc cells' cell)
    then show ?thesis by (simp add: element_line_ends not_space_simps)
  qed
  have "strip ([] @ join_lines ?ls @ [LF]) = join_lines ?ls"
  proof (rule strip_spaces)
    show "join_lines ?ls \<noteq> []" using last_line by (intro join_lines_not_Nil) simp_all
    show "\<not> is_space (hd (join_lines ?ls))" by (simp add: not_space_simps)
    show "\<not> is_space (last (join_lines ?ls))"
      using last_line by (subst join_lines_last) simp_all
  qed (simp_all add: not_space_simps)
  then show ?thesis
    unfolding to_string_def loop joined by simp
qed


lemma update_absent: "k \<notin> fst ` set es \<Longrightarrow> AList.update k v es = es @ [(k, v)]"
  by (induction es) auto

lemma update_present:
  "i < length es \<Longrightarrow> fst (es ! i) = k \<Longrightarrow> distinct (map fst es) \<Longrightarrow>
     AList.update k v es = es[i := (k, v)]"
proof (induction es arbitrary: i)
  case Nil
  then show ?case by simp
next
  case (Cons e es)
  show ?case
  proof (cases i)
    case 0
    with Cons.prems show ?thesis by simp
  next
    case (Suc j)
    with Cons.prems have "es ! j \<in> set es" "fst (es ! j) = k" by simp_all
    then have "k \<in> fst ` set es" by force
    moreover have "fst e \<notin> fst ` set es" using Cons.prems(3) by simp
    ultimately have "fst e \<noteq> k" by blast
    with Suc Cons show ?thesis by simp
  qed
qed

text \<open>
  Claim C5. The text of a well-formed matrix is its two header lines followed by
  one line for each stored element, in the order of the dictionary, joined by
  line feeds; it is not empty and does not end in a line feed, so there is no
  trailing blank line. The order of the dictionary is the order of first
  insertion: \<^const>\<open>set_element\<close> on a coordinate that is not stored appends its item
  at the end, and on a stored coordinate replaces the item where it stands. The
  value written is arbitrary, so an element set to \<open>0\<close> is stored and written like
  any other.
\<close>

theorem to_string_order:
  assumes "well_formed M"
  shows "\<exists>cells. elements M = map item cells \<and>
           to_string M =
             Inr (join_lines ((''rows='' @ str_int (rows M)) # (''cols='' @ str_int (cols M)) #
                              map element_line cells)) \<and>
           (\<forall>t. to_string M = Inr t \<longrightarrow> t \<noteq> [] \<and> last t \<noteq> LF) \<and>
           (key r c \<notin> fst ` set (elements M) \<longrightarrow>
              elements (set_element M r c v) = elements M @ [item (r, c, v)]) \<and>
           (\<forall>i<length (elements M). fst (elements M ! i) = key r c \<longrightarrow>
              elements (set_element M r c v) = (elements M)[i := item (r, c, v)])"
proof -
  from well_formed_items [OF assms] obtain cells where cells: "elements M = map item cells"
    by blast
  let ?ls = "(''rows='' @ str_int (rows M)) # (''cols='' @ str_int (cols M)) # map element_line cells"
  have str: "to_string M = Inr (join_lines ?ls)"
    by (rule to_string_items [OF cells])
  have last_line: "last ?ls \<noteq> [] \<and> last (last ?ls) \<noteq> LF"
  proof (cases cells rule: rev_cases)
    case Nil
    then show ?thesis
      using str_int_last [of "cols M"] is_digit_cases [of "last (str_int (cols M))"]
      by (auto simp add: str_int_not_Nil)
  next
    case (snoc cells' cell)
    then show ?thesis by (simp add: element_line_ends LF_def)
  qed
  moreover have "?ls \<noteq> []" by simp
  ultimately have "join_lines ?ls \<noteq> [] \<and> last (join_lines ?ls) \<noteq> LF"
    using join_lines_last [of ?ls] join_lines_not_Nil [of ?ls] by presburger
  with str have ending: "\<forall>t. to_string M = Inr t \<longrightarrow> t \<noteq> [] \<and> last t \<noteq> LF"
    by simp
  have new: "key r c \<notin> fst ` set (elements M) \<longrightarrow>
      elements (set_element M r c v) = elements M @ [item (r, c, v)]"
    by (simp add: update_absent)
  have old: "\<forall>i<length (elements M). fst (elements M ! i) = key r c \<longrightarrow>
      elements (set_element M r c v) = (elements M)[i := item (r, c, v)]"
    using well_formed_distinct [OF assms] by (simp add: update_present)
  from cells str ending new old show ?thesis by blast
qed


theorem to_string_order_witness:
  "well_formed example_A \<and>
   to_string example_A = Inr ''rows=2\<newline>cols=2\<newline>(0, 0, 1)\<newline>(1, 0, -4)'' \<and>
   key 5 5 \<notin> fst ` set (elements example_A) \<and>
   elements (set_element example_A 5 5 0) = elements example_A @ [item (5, 5, 0)] \<and>
   1 < length (elements example_A) \<and> fst (elements example_A ! 1) = key 1 0 \<and>
   elements (set_element example_A 1 0 0) = (elements example_A)[1 := item (1, 0, 0)]"
proof -
  have h: "well_formed example_A" by code_simp
  have s: "to_string example_A = Inr ''rows=2\<newline>cols=2\<newline>(0, 0, 1)\<newline>(1, 0, -4)''"
    by code_simp
  have a: "key 5 5 \<notin> fst ` set (elements example_A)" by code_simp
  have b: "1 < length (elements example_A)" "fst (elements example_A ! 1) = key 1 0"
    by code_simp+
  show ?thesis
    using h s a b to_string_order [OF h, of 5 5 0] to_string_order [OF h, of 1 0 0] by blast
qed

subsection \<open>Reading the text back\<close>

lemma universal_newlines_id: "CR \<notin> set s \<Longrightarrow> universal_newlines s = s"
  by (induction s rule: universal_newlines.induct) auto

lemma split_lines_line:
  "LF \<notin> set l \<Longrightarrow> split_lines (l @ LF # rest) = (l @ [LF]) # split_lines rest"
  by (induction l) auto

lemma split_lines_single: "LF \<notin> set l \<Longrightarrow> l \<noteq> [] \<Longrightarrow> split_lines l = [l]"
proof (induction l)
  case Nil
  then show ?case by simp
next
  case (Cons c l)
  then show ?case by (cases l) auto
qed

lemma set_join_lines: "set (join_lines ls) \<subseteq> \<Union> (set ` set ls) \<union> {LF}"
  by (induction ls rule: join_lines.induct) auto

lemma split_lines_join_lines:
  assumes "ls \<noteq> []" "\<And>l. l \<in> set ls \<Longrightarrow> l \<noteq> [] \<and> LF \<notin> set l"
  shows "split_lines (join_lines ls) = map (\<lambda>l. l @ [LF]) (butlast ls) @ [last ls]"
  using assms
proof (induction ls rule: join_lines.induct)
  case 1
  then show ?case by simp
next
  case (2 l)
  then show ?case by (simp add: split_lines_single)
next
  case (3 l l' ls)
  then show ?case by (simp add: split_lines_line)
qed

lemma readlines_join_lines:
  assumes "ls \<noteq> []" "\<And>l. l \<in> set ls \<Longrightarrow> l \<noteq> [] \<and> LF \<notin> set l \<and> CR \<notin> set l"
  shows "readlines (join_lines ls) = map (\<lambda>l. l @ [LF]) (butlast ls) @ [last ls]"
proof -
  have "CR \<notin> set (join_lines ls)"
    using set_join_lines [of ls] assms(2) by (auto simp: CR_def LF_def)
  then show ?thesis
    using assms by (simp add: readlines_def universal_newlines_id split_lines_join_lines)
qed

lemma strip_append_space:
  assumes "is_space c"
  shows "strip (l @ [c]) = strip l"
proof (cases "\<forall>x\<in>set l. is_space x")
  case True
  then have 1: "dropWhile is_space l = []" by simp
  from True assms have 2: "dropWhile is_space (l @ [c]) = []" by simp
  show ?thesis by (simp only: strip_def 1 2)
next
  case False
  with assms show ?thesis by (auto simp add: strip_def dropWhile_append)
qed

lemma map_strip_readlines:
  assumes "ls \<noteq> []" "\<And>l. l \<in> set ls \<Longrightarrow> l \<noteq> [] \<and> LF \<notin> set l \<and> CR \<notin> set l"
  shows "map strip (readlines (join_lines ls)) = map strip ls"
proof -
  have "map strip (map (\<lambda>l. l @ [LF]) (butlast ls) @ [last ls])
      = map strip (butlast ls @ [last ls])"
    by (simp add: strip_append_space not_space_simps comp_def)
  then show ?thesis
    using assms by (simp add: readlines_join_lines)
qed

lemma from_file_loop_strip:
  "map strip ls' = map strip ls \<Longrightarrow> from_file_loop ls' m = from_file_loop ls m"
proof (induction ls arbitrary: ls' m)
  case Nil
  then show ?case by simp
next
  case (Cons l ls)
  then obtain l' ls'' where ls': "ls' = l' # ls''" "strip l' = strip l" "map strip ls'' = map strip ls"
    by (cases ls') auto
  then show ?case
    using Cons.IH [of ls''] by (simp add: Let_def split: sum.splits)
qed

lemma header_int_strip: "strip l' = strip l \<Longrightarrow> header_int l' = header_int l"
  by (simp add: header_int_def)

lemma from_lines_strip:
  assumes "map strip ls' = map strip ls"
  shows "from_lines p ls' = from_lines p ls"
proof -
  from assms have len: "length ls' = length ls" by (rule map_eq_imp_length_eq)
  show ?thesis
  proof (cases "length ls < 2")
    case True
    with len show ?thesis by (simp add: from_lines_def)
  next
    case False
    have nth: "strip (ls' ! i) = strip (ls ! i)" if "i < length ls" for i
    proof -
      from assms have "map strip ls' ! i = map strip ls ! i" by simp
      with that len show ?thesis by simp
    qed
    from False have two: "0 < length ls" "1 < length ls" by linarith+
    have h: "strip (ls' ! 0) = strip (ls ! 0)" "strip (ls' ! 1) = strip (ls ! 1)"
      using nth [OF two(1)] nth [OF two(2)] by blast+
    have "map strip (drop 2 ls') = map strip (drop 2 ls)"
      using assms by (simp add: drop_map [symmetric])
    then have "from_file_loop (drop 2 ls') m = from_file_loop (drop 2 ls) m" for m
      by (rule from_file_loop_strip)
    then have loop: "from_file_loop (drop 2 ls') = from_file_loop (drop 2 ls)"
      by (rule ext)
    show ?thesis
      unfolding from_lines_def len header_int_strip [OF h(1)] header_int_strip [OF h(2)] loop ..
  qed
qed

lemma strip_chars_both:
  assumes "s \<noteq> []" "hd s \<notin> set chars" "last s \<notin> set chars"
    and "set pre \<subseteq> set chars" and "set post \<subseteq> set chars"
  shows "strip_chars chars (pre @ s @ post) = s"
proof -
  let ?P = "\<lambda>c. c \<in> set chars"
  from assms have 1: "dropWhile ?P (pre @ s @ post) = s @ post"
    by (cases s) (auto simp: dropWhile_append3 dropWhile_append)
  have 2: "dropWhile ?P (rev post @ rev s) = rev s"
    using assms by (cases "rev s") (auto simp: dropWhile_append hd_rev)
  show ?thesis by (simp add: strip_chars_def 1 2)
qed

lemma str_int_no_eq: "CHR ''='' \<notin> set (str_int i)"
  using str_int_chars [of "CHR ''=''" i] is_digit_cases [of "CHR ''=''"] by auto

lemma str_int_no_newline: "LF \<notin> set (str_int i)" "CR \<notin> set (str_int i)"
  using str_int_chars [of LF i] is_digit_cases [of LF]
    str_int_chars [of CR i] is_digit_cases [of CR]
  by (auto simp: LF_def CR_def)

lemma str_int_no_paren: "hd (str_int i) \<notin> set ''()''" "last (str_int i) \<notin> set ''()''"
  using str_int_hd [of i] is_digit_cases [of "hd (str_int i)"]
    str_int_last [of i] is_digit_cases [of "last (str_int i)"]
  by auto

lemma str_int_ends_no_space: "\<not> is_space (hd (str_int i))" "\<not> is_space (last (str_int i))"
  using str_int_no_space [of _ i] str_int_not_Nil [of i] by simp_all

lemma header_int_line:
  assumes "CHR ''='' \<notin> set label" "label \<noteq> []" "\<not> is_space (hd label)"
  shows "header_int (label @ ''='' @ str_int n) = Inr n"
proof -
  have "strip (label @ ''='' @ str_int n) = label @ ''='' @ str_int n"
    using assms str_int_ends_no_space [of n] str_int_not_Nil [of n]
    by (intro strip_id) (simp_all add: hd_append)
  moreover have "split_on (CHR ''='') (label @ CHR ''='' # str_int n) = [label, str_int n]"
    using assms by (simp add: split_on_append split_on_no_sep str_int_no_eq)
  ultimately show ?thesis
    by (simp add: header_int_def py_int_str_int)
qed

lemma strip_element_line: "strip (element_line cell) = element_line cell"
  by (intro strip_id) (simp_all add: element_line_ends not_space_simps)

lemma parse_element_line:
  "ints3 (split_on (CHR '','') (strip_chars ''()'' (element_line (r, c, v)))) = Inr (r, c, v)"
proof -
  let ?body = "str_int r @ '', '' @ str_int c @ '', '' @ str_int v"
  have "strip_chars ''()'' (''('' @ ?body @ '')'') = ?body"
    using str_int_no_paren [of r] str_int_no_paren [of v] str_int_not_Nil [of r]
      str_int_not_Nil [of v]
    by (intro strip_chars_both) (simp_all add: hd_append)
  then have "strip_chars ''()'' (element_line (r, c, v)) = ?body"
    by (simp add: element_line_simp)
  moreover have "split_on (CHR '','') ?body
      = [str_int r, CHR '' '' # str_int c, CHR '' '' # str_int v]"
    using split_on_append [of "CHR '',''" "str_int r" "CHR '' '' # str_int c @ '', '' @ str_int v"]
      split_on_append [of "CHR '',''" "CHR '' '' # str_int c" "CHR '' '' # str_int v"]
      split_on_no_sep [of "CHR '',''" "CHR '' '' # str_int v"]
    by (simp add: str_int_no_comma)
  ultimately show ?thesis
    by (simp add: py_int_str_int py_int_space_str_int)
qed

lemma from_file_loop_element:
  assumes "strip l = element_line (r, c, v)"
  shows "from_file_loop (l # ls) m = from_file_loop ls (set_element m r c v)"
  using element_line_ends(1) [of "(r, c, v)"]
  by (simp add: assms Let_def parse_element_line)

lemma from_file_loop_lines:
  "from_file_loop (map element_line cells) m = Inr (set_elements m cells)"
proof (induction cells arbitrary: m)
  case Nil
  then show ?case by simp
next
  case (Cons cell cells)
  obtain r c v where cell: "cell = (r, c, v)" by (cases cell)
  show ?case
    by (simp add: cell from_file_loop_element [OF strip_element_line] Cons.IH del: from_file_loop.simps)
qed

lemma set_elements_append:
  assumes "distinct (map fst (elements m @ map item cells))"
    and "\<And>r c v. (r, c, v) \<in> set cells \<Longrightarrow> r < rows m \<and> c < cols m"
  shows "set_elements m cells = m\<lparr>elements := elements m @ map item cells\<rparr>"
  using assms
proof (induction cells arbitrary: m)
  case Nil
  then show ?case by simp
next
  case (Cons cell cells)
  obtain r c v where cell: "cell = (r, c, v)" by (cases cell)
  have absent: "key r c \<notin> fst ` set (elements m)"
    using Cons.prems(1) by (auto simp: cell)
  have range: "r < rows m" "c < cols m"
    using Cons.prems(2) [of r c v] by (simp_all add: cell)
  have step: "set_element m r c v = m\<lparr>elements := elements m @ [item (r, c, v)]\<rparr>"
    using range by (simp add: set_element_def update_absent [OF absent])
  have "set_elements (set_element m r c v) cells =
      (set_element m r c v)\<lparr>elements := elements (set_element m r c v) @ map item cells\<rparr>"
  proof (rule Cons.IH)
    show "distinct (map fst (elements (set_element m r c v) @ map item cells))"
      using Cons.prems(1) unfolding step by (simp add: cell)
    show "r' < rows (set_element m r c v) \<and> c' < cols (set_element m r c v)"
      if "(r', c', v') \<in> set cells" for r' c' v'
      using Cons.prems(2) [of r' c' v'] that unfolding step by simp
  qed
  then show ?case by (simp add: cell step)
qed

lemma well_formed_rebuild:
  assumes wf: "well_formed m" and cells: "elements m = map item cells"
  shows "set_elements (SparseMatrix (rows m) (cols m)) cells = m"
proof -
  let ?m0 = "SparseMatrix (rows m) (cols m)"
  have "set_elements ?m0 cells = ?m0\<lparr>elements := elements ?m0 @ map item cells\<rparr>"
  proof (rule set_elements_append)
    show "distinct (map fst (elements ?m0 @ map item cells))"
      using well_formed_distinct [OF wf] by (simp add: cells SparseMatrix_def)
    show "r < rows ?m0 \<and> c < cols ?m0" if "(r, c, v) \<in> set cells" for r c v
    proof -
      from that have "(key r c, v) \<in> set (elements m)"
        unfolding cells by force
      from well_formed_in_range [OF wf this] show ?thesis by (simp add: SparseMatrix_def)
    qed
  qed
  then show ?thesis by (simp add: SparseMatrix_def cells)
qed

lemma from_lines_to_string_lines:
  "from_lines p ((''rows='' @ str_int n) # (''cols='' @ str_int k) # map element_line cells)
     = Inr (set_elements (SparseMatrix n k) cells)"
  using header_int_line [of "''rows''" n] header_int_line [of "''cols''" k]
  by (simp add: from_lines_def from_file_loop_lines not_space_simps)

text \<open>What is read from a file is well-formed.\<close>

lemma from_file_loop_well_formed:
  "from_file_loop ls m = Inr m' \<Longrightarrow> well_formed m \<Longrightarrow> well_formed m'"
proof (induction ls arbitrary: m)
  case Nil
  then show ?case by simp
next
  case (Cons l ls)
  show ?case
  proof (cases "strip l = []")
    case True
    with Cons show ?thesis by simp
  next
    case False
    with Cons.prems(1) obtain row col v where
      "from_file_loop ls (set_element m row col v) = Inr m'"
      by (auto simp: Let_def split: sum.splits)
    moreover have "well_formed (set_element m row col v)"
      using Cons.prems(2) by (rule well_formed_set_element)
    ultimately show ?thesis by (rule Cons.IH)
  qed
qed

lemma from_lines_well_formed: "from_lines p ls = Inr m \<Longrightarrow> well_formed m"
  by (auto simp: from_lines_def split: if_splits sum.splits
      intro: from_file_loop_well_formed well_formed_SparseMatrix)

lemma from_file_well_formed: "from_file fs p = Inr m \<Longrightarrow> well_formed m"
  by (auto simp: from_file_def split: option.splits dest: from_lines_well_formed)

text \<open>
  Claim C4. Writing a well-formed matrix with \<^const>\<open>to_string\<close> and parsing the lines
  of that text gives back the matrix itself: the same \<^const>\<open>rows\<close>, the same
  \<^const>\<open>cols\<close> and the same dictionary, hence the same \<^const>\<open>get_element\<close> at every
  coordinate. The same holds through a file written by \<^const>\<open>save_to_file\<close> and
  read by \<^const>\<open>from_file\<close>.
\<close>

theorem round_trip:
  assumes "well_formed M"
  shows "(\<exists>t. to_string M = Inr t \<and> from_lines p (readlines t) = Inr M) \<and>
         (\<exists>fs'. save_to_file fs M p = Inr fs' \<and> from_file fs' p = Inr M)"
proof -
  from well_formed_items [OF assms] obtain cells where cells: "elements M = map item cells"
    by blast
  let ?ls = "(''rows='' @ str_int (rows M)) # (''cols='' @ str_int (cols M)) # map element_line cells"
  have str: "to_string M = Inr (join_lines ?ls)"
    by (rule to_string_items [OF cells])
  have clean: "l \<noteq> [] \<and> LF \<notin> set l \<and> CR \<notin> set l" if "l \<in> set ?ls" for l
  proof -
    from that consider "l = ''rows='' @ str_int (rows M)" | "l = ''cols='' @ str_int (cols M)"
      | cell where "l = element_line cell" by auto
    then show ?thesis
    proof cases
      case 1
      then show ?thesis by (simp add: str_int_no_newline) (simp add: LF_def CR_def)
    next
      case 2
      then show ?thesis by (simp add: str_int_no_newline) (simp add: LF_def CR_def)
    next
      case 3
      obtain r c v where "cell = (r, c, v)" by (cases cell)
      with 3 show ?thesis
        by (simp add: element_line_simp str_int_no_newline) (simp add: LF_def CR_def)
    qed
  qed
  have "map strip (readlines (join_lines ?ls)) = map strip ?ls"
    by (rule map_strip_readlines) (simp, rule clean)
  then have "from_lines p (readlines (join_lines ?ls)) = from_lines p ?ls"
    by (rule from_lines_strip)
  also have "\<dots> = Inr (set_elements (SparseMatrix (rows M) (cols M)) cells)"
    by (rule from_lines_to_string_lines)
  also have "set_elements (SparseMatrix (rows M) (cols M)) cells = M"
    by (rule well_formed_rebuild [OF assms cells])
  finally have "from_lines p (readlines (join_lines ?ls)) = Inr M" .
  with str show ?thesis
    by (simp add: save_to_file_def from_file_def)
qed

theorem round_trip_witness:
  "well_formed example_A \<and>
   (\<exists>t. to_string example_A = Inr t \<and> from_lines ''m.txt'' (readlines t) = Inr example_A) \<and>
   (\<exists>fs'. save_to_file Map.empty example_A ''m.txt'' = Inr fs' \<and>
          from_file fs' ''m.txt'' = Inr example_A)"
proof -
  have h: "well_formed example_A" by code_simp
  show ?thesis using h round_trip [OF h, of "''m.txt''" Map.empty] by blast
qed

subsection \<open>Malformed headers and negative indices\<close>

lemma split_on_hd: "\<exists>ps. split_on sep s = takeWhile (\<lambda>c. c \<noteq> sep) s # ps"
  by (induction s) (auto split: list.splits)

lemma split_on_second:
  assumes "sep \<in> set s"
  shows "\<exists>ps. split_on sep s =
           takeWhile (\<lambda>c. c \<noteq> sep) s #
           takeWhile (\<lambda>c. c \<noteq> sep) (tl (dropWhile (\<lambda>c. c \<noteq> sep) s)) # ps"
proof -
  from split_list_first [OF assms] obtain a rest where
    s: "s = a @ sep # rest" and a: "sep \<notin> set a" by blast
  from split_on_hd [of sep rest] obtain ps where
    "split_on sep rest = takeWhile (\<lambda>c. c \<noteq> sep) rest # ps" by blast
  moreover have ne: "x \<noteq> sep" if "x \<in> set a" for x
    using that a by auto
  moreover have "takeWhile (\<lambda>c. c \<noteq> sep) s = a"
    using ne by (simp add: s)
  moreover have "dropWhile (\<lambda>c. c \<noteq> sep) s = sep # rest"
    using ne by (simp add: s)
  ultimately show ?thesis
    using a by (simp add: s split_on_append)
qed

lemma header_int_no_eq: "CHR ''='' \<notin> set (strip line) \<Longrightarrow> header_int line = Inl IndexError"
  by (simp add: header_int_def split_on_no_sep)

lemma header_int_eq:
  assumes "CHR ''='' \<in> set (strip line)"
  shows "header_int line =
           (case py_int (header_value line) of
              None \<Rightarrow> Inl (ValueError (InvalidLiteral (header_value line)))
            | Some n \<Rightarrow> Inr n)"
  using split_on_second [OF assms]
  by (auto simp: header_int_def header_value_def split: option.splits)




lemma update_mem: "(k, v) \<in> set (AList.update k v es)"
  by (induction es) auto

text \<open>
  Claim C8, as the program has it. A negative row or column index is not
  rejected: \<^const>\<open>set_element\<close> stores the value under that coordinate and
  \<^const>\<open>get_element\<close> returns it, a negative index leaves a non-negative dimension as
  it is, and a line of the file with such an index is parsed and set like any
  other.
\<close>

theorem negative_index_stored:
  assumes "row < 0 \<or> col < 0"
  shows "get_element (set_element M row col v) row col = v \<and>
         item (row, col, v) \<in> set (elements (set_element M row col v)) \<and>
         (row < 0 \<and> 0 \<le> rows M \<longrightarrow> rows (set_element M row col v) = rows M) \<and>
         (col < 0 \<and> 0 \<le> cols M \<longrightarrow> cols (set_element M row col v) = cols M) \<and>
         (strip l = element_line (row, col, v) \<longrightarrow>
            from_file_loop [l] M = Inr (set_element M row col v))"
proof -
  have "item (row, col, v) \<in> set (AList.update (key row col) v (elements M))"
    by (simp add: update_mem)
  moreover have "from_file_loop [l] M = Inr (set_element M row col v)"
    if "strip l = element_line (row, col, v)"
    by (simp add: from_file_loop_element [OF that] del: from_file_loop.simps(2))
  ultimately show ?thesis
    by (auto simp: get_element_set_element)
qed

theorem negative_index_stored_witness:
  "((- 1 :: int) < 0 \<or> (0 :: int) < 0) \<and>
   get_element (set_element example_A (- 1) 0 5) (- 1) 0 = 5 \<and>
   rows (set_element example_A (- 1) 0 5) = rows example_A \<and>
   strip '' (-1, 0, 5)  '' = element_line (- 1, 0, 5) \<and>
   from_file_loop ['' (-1, 0, 5)  ''] example_A = Inr (set_element example_A (- 1) 0 5)"
proof -
  have a: "(- 1 :: int) < 0 \<or> (0 :: int) < 0" by simp
  have b: "strip '' (-1, 0, 5)  '' = element_line (- 1, 0, 5)" by code_simp
  have c: "(0 :: int) \<le> rows example_A" by code_simp
  show ?thesis
    using a b c negative_index_stored [OF a, of example_A 5 "'' (-1, 0, 5)  ''"] by blast
qed

text \<open>
  The claim as written fails: an element with a negative index is read from a
  file and stored, and so is one set directly.
\<close>

theorem negative_index_counterexample:
  "from_file [''m.txt'' \<mapsto> ''rows=2\<newline>cols=2\<newline>(-1, 0, 5)''] ''m.txt''
     = Inr \<lparr>elements = [(''-1,0'', 5)], rows = 2, cols = 2\<rparr> \<and>
   set_element (SparseMatrix 2 2) 0 (- 3) 7
     = \<lparr>elements = [(''0,-3'', 7)], rows = 2, cols = 2\<rparr>"
  by code_simp

section \<open>Operands and results in the store\<close>

lemma matrix_at_result [simp]:
  "matrix_at (with_result h m) (Suc (length h)) = Inr (length h, rows m, cols m)"
  by (simp add: matrix_at_def with_result_def nth_append)

lemma dict_at_result [simp]: "dict_at (with_result h m) (length h) = Inr (elements m)"
  by (simp add: dict_at_def with_result_def nth_append)

lemma matrix_at_old:
  "matrix_at h a = Inr x \<Longrightarrow> matrix_at (with_result h m) a = Inr x"
  by (auto simp: matrix_at_def with_result_def nth_append split: if_splits)

lemma dict_at_old:
  "dict_at h d = Inr items \<Longrightarrow> dict_at (with_result h m) d = Inr items"
  by (auto simp: dict_at_def with_result_def nth_append split: if_splits)

lemma view_SomeD:
  "view h a = Some A \<Longrightarrow>
     \<exists>d. matrix_at h a = Inr (d, rows A, cols A) \<and> dict_at h d = Inr (elements A)"
  by (auto simp: view_def split: sum.splits)

lemma view_old: "view h a = Some A \<Longrightarrow> view (with_result h m) a = Some A"
  by (auto simp: view_def matrix_at_old dict_at_old split: sum.splits)

lemma view_result [simp]: "view (with_result h m) (Suc (length h)) = Some m"
  by (simp add: view_def)

lemma take_with_result [simp]: "take (length h) (with_result h m) = h"
  by (simp add: with_result_def)

lemma new_ref_result: "new_ref h n k = (Suc (length h), with_result h (SparseMatrix n k))"
  by (simp add: new_ref_def with_result_def SparseMatrix_def)

lemma set_element_ref_result:
  "set_element_ref (with_result h m) (Suc (length h)) r c v
     = Inr (with_result h (set_element m r c v))"
  by (auto simp: set_element_ref_def Let_def with_result_def matrix_at_def dict_at_def
      nth_append list_update_append set_element_def)

lemma get_element_ref_result:
  "get_element_ref (with_result h m) (Suc (length h)) r c
     = Inr (get_element m r c, with_result h m)"
  by (simp add: get_element_ref_def get_element_def)

lemma iterate_items_refines:
  fixes vloop :: "(string \<times> int) list \<Rightarrow> 's \<Rightarrow> error + 's"
  assumes nil: "\<And>s. vloop [] s = Inr s"
    and cons: "\<And>k v es s. vloop ((k, v) # es) s =
                 (case vbody s k v of Inl e \<Rightarrow> Inl e | Inr s' \<Rightarrow> vloop es s')"
    and src: "\<And>s. dict_at (st s) d = Inr items"
    and step: "\<And>s k v s'. (k, v) \<in> set items \<Longrightarrow> vbody s k v = Inr s' \<Longrightarrow>
                 body (st s) k v = Inr (st s')"
    and run: "vloop (drop i items) s = Inr s'"
  shows "iterate_items body (st s) d (length items) i = Inr (st s')"
  using run
proof (induction "length items - i" arbitrary: i s)
  case 0
  then have "drop i items = []" by simp
  with 0 nil have "s' = s" by simp
  with 0 show ?case
    by (subst iterate_items.simps) (simp add: src)
next
  case (Suc n)
  then have i: "i < length items" by simp
  obtain k v where kv: "items ! i = (k, v)" by (cases "items ! i")
  from i have drop: "drop i items = (k, v) # drop (Suc i) items"
    by (simp add: Cons_nth_drop_Suc [symmetric] kv)
  from Suc.prems obtain s1 where
    body1: "vbody s k v = Inr s1" and rest: "vloop (drop (Suc i) items) s1 = Inr s'"
    unfolding drop cons by (auto split: sum.splits)
  have mem: "(k, v) \<in> set items"
    using i kv by (metis nth_mem)
  have "body (st s) k v = Inr (st s1)"
    by (rule step [OF mem body1])
  moreover have "iterate_items body (st s1) d (length items) (Suc i) = Inr (st s')"
    using Suc.hyps(2) rest by (intro Suc.hyps(1)) simp_all
  ultimately show ?case
    using i by (subst iterate_items.simps) (simp add: src kv)
qed

lemma copy_loop_refines:
  assumes "dict_at h d = Inr items" and "copy_elements items m = Inr m'"
  shows "iterate_items (copy_body (Suc (length h))) (with_result h m) d (length items) 0
           = Inr (with_result h m')"
proof (rule iterate_items_refines [where vloop = copy_elements and st = "with_result h"
      and vbody = "\<lambda>m k v. case ints2 (split_on (CHR '','') k) of
                     Inl e \<Rightarrow> Inl (ValueError e)
                   | Inr (row, col) \<Rightarrow> Inr (set_element m row col v)"])
  show "copy_elements [] s = Inr s" for s by simp
  show "copy_elements ((k, v) # es) s =
      (case (case ints2 (split_on (CHR '','') k) of
               Inl e \<Rightarrow> Inl (ValueError e)
             | Inr (row, col) \<Rightarrow> Inr (set_element s row col v)) of
         Inl e \<Rightarrow> Inl e | Inr s' \<Rightarrow> copy_elements es s')" for k v es s
    by (simp split: sum.splits prod.splits)
  show "dict_at (with_result h s) d = Inr items" for s
    by (rule dict_at_old [OF assms(1)])
  show "copy_body (Suc (length h)) (with_result h s) k v = Inr (with_result h s')"
    if "(case ints2 (split_on (CHR '','') k) of
          Inl e \<Rightarrow> Inl (ValueError e)
        | Inr (row, col) \<Rightarrow> Inr (set_element s row col v)) = Inr s'" for s k v s'
    using that by (auto simp: copy_body_def set_element_ref_result split: sum.splits)
  show "copy_elements (drop 0 items) m = Inr m'" using assms(2) by simp
qed

lemma merge_loop_refines:
  assumes "dict_at h d = Inr items" and "merge_elements f items m = Inr m'"
  shows "iterate_items (merge_body f (Suc (length h))) (with_result h m) d (length items) 0
           = Inr (with_result h m')"
proof (rule iterate_items_refines [where vloop = "merge_elements f" and st = "with_result h"
      and vbody = "\<lambda>m k v. case ints2 (split_on (CHR '','') k) of
                     Inl e \<Rightarrow> Inl (ValueError e)
                   | Inr (row, col) \<Rightarrow>
                       Inr (set_element m row col (f (get_element m row col) v))"])
  show "merge_elements f [] s = Inr s" for s by simp
  show "merge_elements f ((k, v) # es) s =
      (case (case ints2 (split_on (CHR '','') k) of
               Inl e \<Rightarrow> Inl (ValueError e)
             | Inr (row, col) \<Rightarrow>
                 Inr (set_element s row col (f (get_element s row col) v))) of
         Inl e \<Rightarrow> Inl e | Inr s' \<Rightarrow> merge_elements f es s')" for k v es s
    by (simp split: sum.splits prod.splits)
  show "dict_at (with_result h s) d = Inr items" for s
    by (rule dict_at_old [OF assms(1)])
  show "merge_body f (Suc (length h)) (with_result h s) k v = Inr (with_result h s')"
    if "(case ints2 (split_on (CHR '','') k) of
          Inl e \<Rightarrow> Inl (ValueError e)
        | Inr (row, col) \<Rightarrow>
            Inr (set_element s row col (f (get_element s row col) v))) = Inr s'" for s k v s'
    using that
    by (auto simp: merge_body_def get_element_ref_result set_element_ref_result
        split: sum.splits)
  show "merge_elements f (drop 0 items) m = Inr m'" using assms(2) by simp
qed

lemma for_items_old:
  assumes "view h a = Some A"
    and "\<And>d. dict_at h d = Inr (elements A) \<Longrightarrow>
           iterate_items body (with_result h m) d (length (elements A)) 0 = r"
  shows "for_items body (with_result h m) a = r"
proof -
  from view_SomeD [OF assms(1)] obtain d where
    d: "matrix_at h a = Inr (d, rows A, cols A)" "dict_at h d = Inr (elements A)" by blast
  show ?thesis
    by (simp add: for_items_def matrix_at_old [OF d(1)] dict_at_old [OF d(2)] assms(2) [OF d(2)])
qed

lemma combine_ref_refines:
  assumes a: "view h a = Some A" and b: "view h b = Some B"
    and dims: "rows A = rows B" "cols A = cols B"
    and copy: "copy_elements (elements A)
                 (SparseMatrix (max (rows A) (rows B)) (max (cols A) (cols B))) = Inr m1"
    and merge: "merge_elements f (elements B) m1 = Inr R"
  shows "combine_ref mismatch f h a b = Inr (Suc (length h), with_result h R)"
proof -
  from view_SomeD [OF a] obtain d1 where
    d1: "matrix_at h a = Inr (d1, rows A, cols A)" by blast
  from view_SomeD [OF b] obtain d2 where
    d2: "matrix_at h b = Inr (d2, rows B, cols B)" by blast
  let ?m0 = "SparseMatrix (max (rows A) (rows B)) (max (cols A) (cols B))"
  have 1: "for_items (copy_body (Suc (length h))) (with_result h ?m0) a = Inr (with_result h m1)"
    using a by (rule for_items_old) (rule copy_loop_refines [OF _ copy])
  have 2: "for_items (merge_body f (Suc (length h))) (with_result h m1) b = Inr (with_result h R)"
    using b by (rule for_items_old) (rule merge_loop_refines [OF _ merge])
  show ?thesis
    using dims 1 2 by (simp add: combine_ref_def d1 d2 new_ref_result)
qed

lemma add_ref_refines:
  assumes "view h a = Some A" "view h b = Some B" "add A B = Inr R"
  shows "add_ref h a b = Inr (Suc (length h), with_result h R)"
proof -
  from assms(3) have dims: "rows A = rows B" "cols A = cols B"
    by (auto simp: add_def split: if_splits)
  with assms(3) obtain m1 where
    "copy_elements (elements A)
       (SparseMatrix (max (rows A) (rows B)) (max (cols A) (cols B))) = Inr m1"
    "merge_elements (+) (elements B) m1 = Inr R"
    by (auto simp: add_def split: sum.splits)
  with assms(1,2) dims show ?thesis
    unfolding add_ref_def by (rule combine_ref_refines)
qed

lemma subtract_ref_refines:
  assumes "view h a = Some A" "view h b = Some B" "subtract A B = Inr R"
  shows "subtract_ref h a b = Inr (Suc (length h), with_result h R)"
proof -
  from assms(3) have dims: "rows A = rows B" "cols A = cols B"
    by (auto simp: subtract_def split: if_splits)
  with assms(3) obtain m1 where
    "copy_elements (elements A)
       (SparseMatrix (max (rows A) (rows B)) (max (cols A) (cols B))) = Inr m1"
    "merge_elements (-) (elements B) m1 = Inr R"
    by (auto simp: subtract_def split: sum.splits)
  with assms(1,2) dims show ?thesis
    unfolding subtract_ref_def by (rule combine_ref_refines)
qed

lemma inner_loop_refines:
  assumes "dict_at h d = Inr items" and "multiply_inner r1 c1 v1 items m = Inr m'"
  shows "iterate_items (multiply_inner_body r1 c1 v1 (Suc (length h))) (with_result h m) d
           (length items) 0 = Inr (with_result h m')"
proof (rule iterate_items_refines [where vloop = "multiply_inner r1 c1 v1"
      and st = "with_result h"
      and vbody = "\<lambda>m k v. case ints2 (split_on (CHR '','') k) of
                     Inl e \<Rightarrow> Inl (ValueError e)
                   | Inr (row2, col2) \<Rightarrow>
                       Inr (if c1 = row2
                            then set_element m r1 col2 (get_element m r1 col2 + v1 * v)
                            else m)"])
  show "multiply_inner r1 c1 v1 [] s = Inr s" for s by simp
  show "multiply_inner r1 c1 v1 ((k, v) # es) s =
      (case (case ints2 (split_on (CHR '','') k) of
               Inl e \<Rightarrow> Inl (ValueError e)
             | Inr (row2, col2) \<Rightarrow>
                 Inr (if c1 = row2
                      then set_element s r1 col2 (get_element s r1 col2 + v1 * v)
                      else s)) of
         Inl e \<Rightarrow> Inl e | Inr s' \<Rightarrow> multiply_inner r1 c1 v1 es s')" for k v es s
    by (simp split: sum.splits prod.splits)
  show "dict_at (with_result h s) d = Inr items" for s
    by (rule dict_at_old [OF assms(1)])
  show "multiply_inner_body r1 c1 v1 (Suc (length h)) (with_result h s) k v
      = Inr (with_result h s')"
    if "(case ints2 (split_on (CHR '','') k) of
          Inl e \<Rightarrow> Inl (ValueError e)
        | Inr (row2, col2) \<Rightarrow>
            Inr (if c1 = row2
                 then set_element s r1 col2 (get_element s r1 col2 + v1 * v)
                 else s)) = Inr s'" for s k v s'
    using that
    by (auto simp: multiply_inner_body_def get_element_ref_result set_element_ref_result
        split: sum.splits)
  show "multiply_inner r1 c1 v1 (drop 0 items) m = Inr m'" using assms(2) by simp
qed

lemma outer_loop_refines:
  assumes "dict_at h d = Inr items" and b: "view h b = Some B"
    and "multiply_outer items (elements B) m = Inr m'"
  shows "iterate_items (multiply_outer_body b (Suc (length h))) (with_result h m) d
           (length items) 0 = Inr (with_result h m')"
proof (rule iterate_items_refines [where vloop = "\<lambda>es. multiply_outer es (elements B)"
      and st = "with_result h"
      and vbody = "\<lambda>m k v. case ints2 (split_on (CHR '','') k) of
                     Inl e \<Rightarrow> Inl (ValueError e)
                   | Inr (row1, col1) \<Rightarrow> multiply_inner row1 col1 v (elements B) m"])
  show "multiply_outer [] (elements B) s = Inr s" for s by simp
  show "multiply_outer ((k, v) # es) (elements B) s =
      (case (case ints2 (split_on (CHR '','') k) of
               Inl e \<Rightarrow> Inl (ValueError e)
             | Inr (row1, col1) \<Rightarrow> multiply_inner row1 col1 v (elements B) s) of
         Inl e \<Rightarrow> Inl e | Inr s' \<Rightarrow> multiply_outer es (elements B) s')" for k v es s
    by (simp split: sum.splits prod.splits)
  show "dict_at (with_result h s) d = Inr items" for s
    by (rule dict_at_old [OF assms(1)])
  show "multiply_outer_body b (Suc (length h)) (with_result h s) k v = Inr (with_result h s')"
    if run: "(case ints2 (split_on (CHR '','') k) of
          Inl e \<Rightarrow> Inl (ValueError e)
        | Inr (row1, col1) \<Rightarrow> multiply_inner row1 col1 v (elements B) s) = Inr s'" for s k v s'
  proof -
    from run obtain row1 col1 where
      k: "ints2 (split_on (CHR '','') k) = Inr (row1, col1)" and
      inner: "multiply_inner row1 col1 v (elements B) s = Inr s'"
      by (auto split: sum.splits)
    have "for_items (multiply_inner_body row1 col1 v (Suc (length h))) (with_result h s) b
        = Inr (with_result h s')"
      using b by (rule for_items_old) (rule inner_loop_refines [OF _ inner])
    then show ?thesis by (simp add: multiply_outer_body_def k)
  qed
  show "multiply_outer (drop 0 items) (elements B) m = Inr m'" using assms(3) by simp
qed

lemma multiply_ref_refines:
  assumes a: "view h a = Some A" and b: "view h b = Some B" and run: "multiply A B = Inr R"
  shows "multiply_ref h a b = Inr (Suc (length h), with_result h R)"
proof -
  from view_SomeD [OF a] obtain d1 where
    d1: "matrix_at h a = Inr (d1, rows A, cols A)" by blast
  from view_SomeD [OF b] obtain d2 where
    d2: "matrix_at h b = Inr (d2, rows B, cols B)" by blast
  from run have dims: "cols A = rows B" and
    outer: "multiply_outer (elements A) (elements B) (SparseMatrix (rows A) (cols B)) = Inr R"
    by (auto simp: multiply_def split: if_splits)
  have "for_items (multiply_outer_body b (Suc (length h)))
      (with_result h (SparseMatrix (rows A) (cols B))) a = Inr (with_result h R)"
    using a by (rule for_items_old) (rule outer_loop_refines [OF _ b outer])
  then show ?thesis
    using dims by (simp add: multiply_ref_def d1 d2 new_ref_result)
qed

lemma result_is_fresh:
  assumes "view h a = Some A" "view h b = Some B"
  shows "take (length h) (with_result h R) = h \<and>
         view (with_result h R) a = Some A \<and> view (with_result h R) b = Some B \<and>
         view (with_result h R) (Suc (length h)) = Some R \<and>
         matrix_at (with_result h R) (Suc (length h)) = Inr (length h, rows R, cols R)"
  using assms by (simp add: view_old)

text \<open>
  Claim C9. Let the references \<open>a\<close> and \<open>b\<close> (which may be the same) denote
  well-formed matrices. On operands of fitting dimensions \<^verbatim>\<open>add\<close>, \<^verbatim>\<open>subtract\<close> and
  \<^verbatim>\<open>multiply\<close> return a reference and a store such that the store begins with the
  old store unchanged: no object that existed before the call is written, so each
  operand denotes the same matrix as before and has the same text. The reference
  returned and the dictionary of its matrix lie beyond the old store, that is,
  both are newly allocated; the matrix it denotes is the one the operation
  computes on the operands' values.
\<close>

theorem operations_leave_operands:
  assumes "view h a = Some A" and "view h b = Some B"
    and "well_formed A" and "well_formed B"
  shows "(rows A = rows B \<and> cols A = cols B \<longrightarrow>
            (\<exists>res h' R d. add_ref h a b = Inr (res, h') \<and> add A B = Inr R \<and>
               take (length h) h' = h \<and> view h' a = Some A \<and> view h' b = Some B \<and>
               view h' res = Some R \<and> length h \<le> res \<and>
               matrix_at h' res = Inr (d, rows R, cols R) \<and> length h \<le> d) \<and>
            (\<exists>res h' R d. subtract_ref h a b = Inr (res, h') \<and> subtract A B = Inr R \<and>
               take (length h) h' = h \<and> view h' a = Some A \<and> view h' b = Some B \<and>
               view h' res = Some R \<and> length h \<le> res \<and>
               matrix_at h' res = Inr (d, rows R, cols R) \<and> length h \<le> d)) \<and>
         (cols A = rows B \<longrightarrow>
            (\<exists>res h' R d. multiply_ref h a b = Inr (res, h') \<and> multiply A B = Inr R \<and>
               take (length h) h' = h \<and> view h' a = Some A \<and> view h' b = Some B \<and>
               view h' res = Some R \<and> length h \<le> res \<and>
               matrix_at h' res = Inr (d, rows R, cols R) \<and> length h \<le> d))"
proof (intro conjI impI)
  assume dims: "rows A = rows B \<and> cols A = cols B"
  from add_result [OF assms(3,4)] dims obtain R where R: "add A B = Inr R" by blast
  from add_ref_refines [OF assms(1,2) R] R result_is_fresh [OF assms(1,2), of R]
  show "\<exists>res h' R d. add_ref h a b = Inr (res, h') \<and> add A B = Inr R \<and>
      take (length h) h' = h \<and> view h' a = Some A \<and> view h' b = Some B \<and>
      view h' res = Some R \<and> length h \<le> res \<and>
      matrix_at h' res = Inr (d, rows R, cols R) \<and> length h \<le> d"
    by (intro exI [of _ "Suc (length h)"] exI [of _ "with_result h R"] exI [of _ R]
        exI [of _ "length h"]) simp
  from subtract_result [OF assms(3,4)] dims obtain D where D: "subtract A B = Inr D" by blast
  from subtract_ref_refines [OF assms(1,2) D] D result_is_fresh [OF assms(1,2), of D]
  show "\<exists>res h' R d. subtract_ref h a b = Inr (res, h') \<and> subtract A B = Inr R \<and>
      take (length h) h' = h \<and> view h' a = Some A \<and> view h' b = Some B \<and>
      view h' res = Some R \<and> length h \<le> res \<and>
      matrix_at h' res = Inr (d, rows R, cols R) \<and> length h \<le> d"
    by (intro exI [of _ "Suc (length h)"] exI [of _ "with_result h D"] exI [of _ D]
        exI [of _ "length h"]) simp
next
  assume dims: "cols A = rows B"
  from multiply_result [OF assms(3,4) dims] obtain R where R: "multiply A B = Inr R" by blast
  from multiply_ref_refines [OF assms(1,2) R] R result_is_fresh [OF assms(1,2), of R]
  show "\<exists>res h' R d. multiply_ref h a b = Inr (res, h') \<and> multiply A B = Inr R \<and>
      take (length h) h' = h \<and> view h' a = Some A \<and> view h' b = Some B \<and>
      view h' res = Some R \<and> length h \<le> res \<and>
      matrix_at h' res = Inr (d, rows R, cols R) \<and> length h \<le> d"
    by (intro exI [of _ "Suc (length h)"] exI [of _ "with_result h R"] exI [of _ R]
        exI [of _ "length h"]) simp
qed


theorem operations_leave_operands_witness:
  "view example_heap 1 = Some example_A \<and> view example_heap 3 = Some example_C \<and>
   well_formed example_A \<and> well_formed example_C \<and>
   rows example_A = rows example_A \<and> cols example_A = cols example_A \<and>
   cols example_A = rows example_C \<and>
   (\<exists>res h'. add_ref example_heap 1 1 = Inr (res, h') \<and>
      take (length example_heap) h' = example_heap \<and> view h' 1 = Some example_A \<and>
      length example_heap \<le> res) \<and>
   (\<exists>res h'. multiply_ref example_heap 1 3 = Inr (res, h') \<and>
      take (length example_heap) h' = example_heap \<and>
      view h' 1 = Some example_A \<and> view h' 3 = Some example_C \<and>
      length example_heap \<le> res)"
proof -
  have v: "view example_heap 1 = Some example_A" "view example_heap 3 = Some example_C"
    by code_simp+
  have w: "well_formed example_A" "well_formed example_C" by code_simp+
  have d: "cols example_A = rows example_C" by code_simp
  from operations_leave_operands [OF v(1) v(1) w(1) w(1)]
  have 1: "\<exists>res h'. add_ref example_heap 1 1 = Inr (res, h') \<and>
      take (length example_heap) h' = example_heap \<and> view h' 1 = Some example_A \<and>
      length example_heap \<le> res"
    by blast
  from operations_leave_operands [OF v w] d
  have 2: "\<exists>res h'. multiply_ref example_heap 1 3 = Inr (res, h') \<and>
      take (length example_heap) h' = example_heap \<and>
      view h' 1 = Some example_A \<and> view h' 3 = Some example_C \<and>
      length example_heap \<le> res"
    by blast
  from v w d 1 2 show ?thesis by simp
qed

text \<open>
  Claim C10. \<^verbatim>\<open>get_element\<close> returns the store it was given, at every coordinate,
  in range or not: no item is inserted and no field is written. On a reference
  that denotes a matrix it returns the element of that matrix.
\<close>

theorem get_element_reads_only:
  "(\<forall>v h'. get_element_ref h a r c = Inr (v, h') \<longrightarrow> h' = h) \<and>
   (view h a = Some M \<longrightarrow> get_element_ref h a r c = Inr (get_element M r c, h))"
  by (auto simp: get_element_ref_def get_element_def view_def split: sum.splits)

theorem get_element_reads_only_witness:
  "view example_heap 1 = Some example_A \<and>
   get_element_ref example_heap 1 7 9 = Inr (0, example_heap) \<and>
   get_element_ref example_heap 1 1 0 = Inr (- 4, example_heap)"
proof -
  have v: "view example_heap 1 = Some example_A" by code_simp
  have g: "get_element example_A 7 9 = 0" "get_element example_A 1 0 = - 4" by code_simp+
  show ?thesis
    using v g get_element_reads_only [of example_heap 1 7 9 example_A]
      get_element_reads_only [of example_heap 1 1 0 example_A]
    by simp
qed

end
